theory Spec2Isabelle
  imports Complex_Main "HOL-Library.AList" "HOL-Library.Sublist"
begin

section \<open>Values, errors and formatting\<close>

text \<open>
  A numpy float64 is a finite number (modelled by the real number it denotes), one of the
  two infinities, or NaN. Integer arrays (bin levels, \<^verbatim>\<open>np.arange\<close>) are the
  finite values that are whole numbers.
\<close>

datatype npfloat = NaN | NInf | Fin real | PInf

text \<open>numpy's \<^verbatim>\<open>x >= y\<close>: false as soon as one side is NaN.\<close>

fun fge :: "npfloat \<Rightarrow> npfloat \<Rightarrow> bool" where
  "fge NaN _ = False"
| "fge _ NaN = False"
| "fge PInf _ = True"
| "fge _ NInf = True"
| "fge NInf _ = False"
| "fge _ PInf = False"
| "fge (Fin a) (Fin b) = (b \<le> a)"

text \<open>The exceptions the code raises, each with the message the code gives it.\<close>

datatype error =
    ValueError string
  | TypeError string
  | KeyError string
  | IndexError
  | AttributeError string
  | NotFittedError
  | ValidationError
  | MissingColumnError

text \<open>Python's \<^verbatim>\<open>xs[i]\<close> on a list: a negative index counts from the end.\<close>

definition py_index :: "'a list \<Rightarrow> int \<Rightarrow> error + 'a" where
  "py_index xs i =
     (if 0 \<le> i \<and> i < int (length xs) then Inr (xs ! nat i)
      else if i < 0 \<and> - int (length xs) \<le> i then Inr (xs ! nat (int (length xs) + i))
      else Inl IndexError)"

text \<open>\<^verbatim>\<open>a[0]\<close> on a chunk of values.\<close>

fun first :: "'a list \<Rightarrow> error + 'a" where
  "first [] = Inl IndexError"
| "first (x # _) = Inr x"

text \<open>
  \<^verbatim>\<open>"%.2f" % x\<close> for a finite x: the value is rounded to hundredths, a tie going to
  the even neighbour, and printed with its sign, its integer part and two decimals.
\<close>

definition round_half_even :: "real \<Rightarrow> int" where
  "round_half_even y =
     (let q = \<lfloor>y\<rfloor>; d = y - of_int q
      in if d < 1 / 2 then q
         else if 1 / 2 < d then q + 1
         else if even q then q else q + 1)"

definition digit_char :: "nat \<Rightarrow> char" where
  "digit_char d = ''0123456789'' ! d"

fun show_nat :: "nat \<Rightarrow> string" where
  "show_nat n = (if n < 10 then [digit_char n] else show_nat (n div 10) @ [digit_char (n mod 10)])"

declare show_nat.simps [simp del]

definition fmt2 :: "real \<Rightarrow> string" where
  "fmt2 x =
     (let h = nat (round_half_even (\<bar>x\<bar> * 100))
      in (if x < 0 then ''-'' else '''') @ show_nat (h div 100) @ ''.''
         @ [digit_char ((h mod 100) div 10), digit_char (h mod 10)])"

section \<open>The bins of one feature\<close>

record Bins =
  n_bins :: int
  upper_bounds :: "npfloat list"
  lower_bounds :: "npfloat list"
  reprs :: "string list"

text \<open>
  The loop of \<^verbatim>\<open>_Bins.__init__\<close> over
  \<^verbatim>\<open>enumerate(zip(chunks[:-1], chunks[1:]))\<close>: the index, the pairs still to
  visit, and the three lists built so far. \<^verbatim>\<open>next_chunk[0]\<close> is read in every
  round, \<^verbatim>\<open>this_chunk[0]\<close> in every round but the first.
\<close>

fun init_loop ::
  "nat \<Rightarrow> (real list \<times> real list) list \<Rightarrow> npfloat list \<times> npfloat list \<times> string list
   \<Rightarrow> error + (npfloat list \<times> npfloat list \<times> string list)" where
  "init_loop i [] acc = Inr acc"
| "init_loop i ((this_chunk, next_chunk) # rest) (ubs, lbs, rs) =
     (case first next_chunk of
        Inl e \<Rightarrow> Inl e
      | Inr upper_bound \<Rightarrow>
          if i = 0 then
            init_loop (Suc i) rest
              (ubs @ [Fin upper_bound], lbs @ [NInf],
               rs @ [''(-Inf, '' @ fmt2 upper_bound @ '']''])
          else
            (case first this_chunk of
               Inl e \<Rightarrow> Inl e
             | Inr lower_bound \<Rightarrow>
                 init_loop (Suc i) rest
                   (ubs @ [Fin upper_bound], lbs @ [Fin lower_bound],
                    rs @ [''('' @ fmt2 lower_bound @ '', '' @ fmt2 upper_bound @ '']''])))"

text \<open>
  \<^verbatim>\<open>_Bins.__init__\<close>. The chunks hold finite values (fit validates its table with
  \<^verbatim>\<open>assert_all_finite=True\<close>). \<^verbatim>\<open>chunks[-1]\<close> raises on an empty list of chunks,
  \<^verbatim>\<open>chunks[-1][0]\<close> on an empty last chunk.
\<close>

definition Bins_init :: "real list list \<Rightarrow> error + Bins" where
  "Bins_init chunks =
     (case init_loop 0 (zip (butlast chunks) (tl chunks)) ([], [], []) of
        Inl e \<Rightarrow> Inl e
      | Inr (ubs, lbs, rs) \<Rightarrow>
          if chunks = [] then Inl IndexError
          else
            (case first (last chunks) of
               Inl e \<Rightarrow> Inl e
             | Inr l \<Rightarrow>
                 Inr \<lparr> n_bins = int (length chunks),
                       upper_bounds = ubs @ [PInf],
                       lower_bounds = lbs @ [Fin l],
                       reprs = rs @ [''('' @ fmt2 l @ '', Inf]''] \<rparr>))"

text \<open>What \<^verbatim>\<open>assign\<close> returns: the bin levels, or their labels.\<close>

datatype assigned = Levels "int list" | Labels "string list"

text \<open>\<^verbatim>\<open>bins[anti_mask] -= 1\<close>: one less wherever the mask is set.\<close>

definition decrement_where :: "bool list \<Rightarrow> int list \<Rightarrow> int list" where
  "decrement_where anti_mask bins = map (\<lambda>(m, b). if m then b - 1 else b) (zip anti_mask bins)"

text \<open>One round of the backward scan, for one lower bound.\<close>

definition assign_step :: "npfloat list \<Rightarrow> int list \<Rightarrow> npfloat \<Rightarrow> int list" where
  "assign_step v bins boundary =
     (let mask = map (\<lambda>x. fge x boundary) v;
          anti_mask = map Not mask
      in if length anti_mask > 0 then decrement_where anti_mask bins else bins)"

fun sequence_results :: "(error + 'a) list \<Rightarrow> error + 'a list" where
  "sequence_results [] = Inr []"
| "sequence_results (r # rs) =
     (case r of
        Inl e \<Rightarrow> Inl e
      | Inr x \<Rightarrow> (case sequence_results rs of Inl e \<Rightarrow> Inl e | Inr xs \<Rightarrow> Inr (x # xs)))"

text \<open>\<^verbatim>\<open>_Bins.assign\<close>.\<close>

definition assign :: "Bins \<Rightarrow> npfloat list \<Rightarrow> bool \<Rightarrow> error + assigned" where
  "assign b v as_str =
     (let bins0 = replicate (length v) (n_bins b - 1);
          bins = foldl (assign_step v) bins0 (rev (lower_bounds b))
      in if as_str then
           (case sequence_results (map (py_index (reprs b)) bins) of
              Inl e \<Rightarrow> Inl e
            | Inr ls \<Rightarrow> Inr (Labels ls))
         else Inr (Levels bins))"

section \<open>The strategies\<close>

text \<open>
  \<^verbatim>\<open>np.unique(x, return_counts=True)\<close> on finite values: the distinct values in
  ascending order, and how often each occurs.
\<close>

definition np_unique :: "real list \<Rightarrow> real list \<times> nat list" where
  "np_unique x = (let unique = sort (remdups x) in (unique, map (count_list x) unique))"

definition validate_n_bins :: "real list \<Rightarrow> int \<Rightarrow> error + (real list \<times> nat list)" where
  "validate_n_bins x n =
     (case np_unique x of
        (unique, cts) \<Rightarrow>
          if int (length unique) < n then Inl (ValueError ''Fewer unique values than bins!'')
          else Inr (unique, cts))"

text \<open>
  Modelled from the spec: \<^verbatim>\<open>chunk\<close> of \<^verbatim>\<open>skoot.utils.iterables\<close> is not among
  the sources. The spec gives it as the partition of a sequence into n contiguous groups
  of as-equal-as-possible size, the earlier groups receiving one extra element when the
  count is not evenly divisible; the comment in \<^verbatim>\<open>_uniform\<close> shows it on
  \<^verbatim>\<open>np.arange(10)\<close> and 4. Group i starts after the i groups before it and has
  \<open>length v div n\<close> elements, one more when \<open>i < length v mod n\<close>.
\<close>

definition chunk :: "'a list \<Rightarrow> nat \<Rightarrow> 'a list list" where
  "chunk v n =
     (let k = length v div n; m = length v mod n
      in map (\<lambda>i. take (k + (if i < m then 1 else 0)) (drop (i * k + min i m) v)) [0..<n])"

text \<open>\<^verbatim>\<open>_uniform\<close>. The bin count is an integer greater than 1 whenever fit calls it.\<close>

definition uniform :: "real list \<Rightarrow> int \<Rightarrow> error + Bins" where
  "uniform x n =
     (case validate_n_bins x n of
        Inl e \<Rightarrow> Inl e
      | Inr (unique, _) \<Rightarrow> Bins_init (chunk unique (nat n)))"

text \<open>
  \<^verbatim>\<open>_entropy\<close>. The compiled routine \<^verbatim>\<open>entropy_bin_bounds\<close> is not among the
  sources and the spec gives no algorithm for it, so it is a parameter: from the values,
  the distinct values and their counts to the groups of values.
\<close>

type_synonym entropy_kernel = "real list \<Rightarrow> real list \<Rightarrow> nat list \<Rightarrow> real list list"

definition entropy :: "entropy_kernel \<Rightarrow> real list \<Rightarrow> int \<Rightarrow> error + Bins" where
  "entropy entropy_bin_bounds x n =
     (case validate_n_bins x n of
        Inl e \<Rightarrow> Inl e
      | Inr (unique, cts) \<Rightarrow> Bins_init (entropy_bin_bounds x unique cts))"

definition STRATEGIES :: "entropy_kernel \<Rightarrow> string \<Rightarrow> (real list \<Rightarrow> int \<Rightarrow> error + Bins) option" where
  "STRATEGIES entropy_bin_bounds s =
     (if s = ''entropy'' then Some (entropy entropy_bin_bounds)
      else if s = ''uniform'' then Some uniform
      else None)"

section \<open>Tables\<close>

text \<open>
  A pandas frame: its columns in order, each with its name and its cells, all of the same
  length. A cell is a number or a string (a bin label).
\<close>

datatype cell = Num npfloat | Str string

type_synonym frame = "(string \<times> cell list) list"

definition nrows :: "frame \<Rightarrow> nat" where
  "nrows X = (case X of [] \<Rightarrow> 0 | (_, col) # _ \<Rightarrow> length col)"

definition well_formed :: "frame \<Rightarrow> bool" where
  "well_formed X = (distinct (map fst X) \<and> list_all (\<lambda>(_, col). length col = nrows X) X)"

text \<open>\<^verbatim>\<open>X[c].values\<close>.\<close>

definition column :: "frame \<Rightarrow> string \<Rightarrow> error + cell list" where
  "column X c = (case map_of X c of None \<Rightarrow> Inl (KeyError c) | Some col \<Rightarrow> Inr col)"

text \<open>\<^verbatim>\<open>X[name] = values\<close>: replaces the column of that name, or appends a new one on the right.\<close>

definition set_column :: "frame \<Rightarrow> string \<Rightarrow> cell list \<Rightarrow> frame" where
  "set_column X name col = AList.update name col X"

text \<open>\<^verbatim>\<open>X.values\<close>: the rows of the frame.\<close>

definition frame_values :: "frame \<Rightarrow> cell list list" where
  "frame_values X = map (\<lambda>i. map (\<lambda>(_, col). col ! i) X) [0..<nrows X]"

definition is_finite_cell :: "cell \<Rightarrow> bool" where
  "is_finite_cell c = (case c of Num (Fin _) \<Rightarrow> True | _ \<Rightarrow> False)"

text \<open>
  The values of a column as fit's strategies use them. Fit has validated its table with
  \<^verbatim>\<open>assert_all_finite=True\<close>, so the cells are finite numbers; the model returns an
  error for any other cell.
\<close>

fun finite_values :: "cell list \<Rightarrow> error + real list" where
  "finite_values [] = Inr []"
| "finite_values (Num (Fin r) # cs) =
     (case finite_values cs of Inl e \<Rightarrow> Inl e | Inr rs \<Rightarrow> Inr (r # rs))"
| "finite_values (_ # cs) = Inl ValidationError"

text \<open>
  The values of a column as \<^verbatim>\<open>assign\<close> compares them with a bound: a column that
  holds strings cannot be compared with a float (Python 3).
\<close>

fun numeric_values :: "cell list \<Rightarrow> error + npfloat list" where
  "numeric_values [] = Inr []"
| "numeric_values (Num x # cs) =
     (case numeric_values cs of Inl e \<Rightarrow> Inl e | Inr xs \<Rightarrow> Inr (x # xs))"
| "numeric_values (Str _ # cs) = Inl (TypeError ''>= not supported between str and float'')"

definition cells_of :: "assigned \<Rightarrow> cell list" where
  "cells_of a = (case a of Levels is \<Rightarrow> map (\<lambda>i. Num (Fin (of_int i))) is | Labels ls \<Rightarrow> map Str ls)"

text \<open>
  Modelled from the spec: \<^verbatim>\<open>check_dataframe\<close> of \<^verbatim>\<open>skoot.utils.validation\<close>
  is not among the sources. The spec gives it as the routine that returns the validated
  table and the ordered column names (the given ones, or all columns if null) and fails
  with a validation error on non-finite values when required. The table comes back whole
  (a copy: the example in the docstring of \<^verbatim>\<open>BinningTransformer\<close> keeps the columns
  that are not binned); finiteness is required of the selected columns.
\<close>

definition check_dataframe ::
  "frame \<Rightarrow> string list option \<Rightarrow> bool \<Rightarrow> error + (frame \<times> string list)" where
  "check_dataframe X cols assert_all_finite =
     (let cs = (case cols of None \<Rightarrow> map fst X | Some cs \<Rightarrow> cs)
      in if assert_all_finite \<and>
            \<not> list_all (\<lambda>c. case map_of X c of None \<Rightarrow> True
                                             | Some col \<Rightarrow> list_all is_finite_cell col) cs
         then Inl ValidationError
         else Inr (X, cs))"

text \<open>
  Modelled from the spec: \<^verbatim>\<open>validate_test_set_columns\<close> of
  \<^verbatim>\<open>skoot.utils.validation\<close> is not among the sources. The spec gives it as: fails
  with a missing-column error if any required column is absent from the available columns.
\<close>

definition validate_test_set_columns :: "string list \<Rightarrow> string list \<Rightarrow> error + unit" where
  "validate_test_set_columns required available =
     (if list_all (\<lambda>c. c \<in> set available) required then Inr () else Inl MissingColumnError)"

section \<open>The transformer\<close>

text \<open>
  A configured bin count is an int or some other object; the \<^verbatim>\<open>n_bins\<close> parameter
  is one such object (not iterable), a sequence of them, or a dict from column names to
  them. A dict is the list of its items in insertion order, its keys distinct.
\<close>

datatype pyval = PyInt int | PyOther

datatype n_bins_spec = NScalar pyval | NSeq "pyval list" | NDict "(string \<times> pyval) list"

text \<open>
  The object: its parameters, and the two attributes that fit sets, \<^verbatim>\<open>bins_\<close>
  (here \<open>bt_bins\<close>) and \<^verbatim>\<open>fit_cols_\<close> (here \<open>bt_fit_cols\<close>), absent (None) until
  then. The parameter \<^verbatim>\<open>n_bins\<close> is \<open>bt_n_bins\<close>.
\<close>

record BinningTransformer =
  cols :: "string list option"
  as_df :: bool
  bt_n_bins :: n_bins_spec
  strategy :: string
  return_bin_label :: bool
  overwrite :: bool
  bt_bins :: "(string \<times> Bins) list option"
  bt_fit_cols :: "string list option"

text \<open>\<^verbatim>\<open>dict(items)\<close>: a later item of the same key replaces the value and keeps the place.\<close>

definition dict_of :: "('k \<times> 'v) list \<Rightarrow> ('k \<times> 'v) list" where
  "dict_of items = foldl (\<lambda>d (k, v). AList.update k v d) [] items"

text \<open>The first part of fit's validation: \<^verbatim>\<open>n_bins\<close> becomes a dict over the columns.\<close>

definition normalize_n_bins :: "n_bins_spec \<Rightarrow> string list \<Rightarrow> error + (string \<times> pyval) list" where
  "normalize_n_bins spec cs =
     (case spec of
        NSeq ns \<Rightarrow>
          if length ns \<noteq> length cs then Inl (ValueError ''dim mismatch between cols and n_bin'')
          else Inr (dict_of (zip cs ns))
      | NDict d \<Rightarrow>
          if length d \<noteq> length cs then Inl (ValueError ''dim mismatch between cols and n_bin'')
          else if set cs - set (map fst d) \<noteq> {} \<or> set (map fst d) - set cs \<noteq> {}
          then Inl (ValueError
                 ''When n_bins is provided as a dictionary its keys must match the provided cols.'')
          else Inr d
      | NScalar (PyInt n) \<Rightarrow> Inr (dict_of (map (\<lambda>c. (c, PyInt n)) cs))
      | NScalar PyOther \<Rightarrow> Inl (TypeError ''n_bins must be an iterable or an int''))"

text \<open>The second part: every count is an int greater than 1.\<close>

fun validate_counts :: "(string \<times> pyval) list \<Rightarrow> error + (string \<times> int) list" where
  "validate_counts [] = Inr []"
| "validate_counts ((c, v) # d) =
     (case v of
        PyInt n \<Rightarrow>
          if n > 1 then
            (case validate_counts d of Inl e \<Rightarrow> Inl e | Inr d' \<Rightarrow> Inr ((c, n) # d'))
          else Inl (ValueError ''Each n_bin value must be an integer > 1'')
      | PyOther \<Rightarrow> Inl (ValueError ''Each n_bin value must be an integer > 1''))"

text \<open>
  The loop of fit that computes the bins of each feature, over the items of the dict:
  \<^verbatim>\<open>bins[c] = binner(X[c].values, n)\<close>.
\<close>

fun fit_loop ::
  "(real list \<Rightarrow> int \<Rightarrow> error + Bins) \<Rightarrow> frame \<Rightarrow> (string \<times> int) list
   \<Rightarrow> (string \<times> Bins) list \<Rightarrow> error + (string \<times> Bins) list" where
  "fit_loop binner X [] bins = Inr bins"
| "fit_loop binner X ((c, n) # d) bins =
     (case column X c of
        Inl e \<Rightarrow> Inl e
      | Inr cells \<Rightarrow>
          (case finite_values cells of
             Inl e \<Rightarrow> Inl e
           | Inr x \<Rightarrow>
               (case binner x n of
                  Inl e \<Rightarrow> Inl e
                | Inr b \<Rightarrow> fit_loop binner X d (AList.update c b bins))))"

text \<open>
  Everything fit does before it sets the instance attributes: the bins of every column and
  the column names, or the error raised. The message of the unknown strategy is given
  without the quoting of \<^verbatim>\<open>%r\<close>.
\<close>

definition fit_compute ::
  "entropy_kernel \<Rightarrow> BinningTransformer \<Rightarrow> frame
   \<Rightarrow> error + ((string \<times> Bins) list \<times> string list)" where
  "fit_compute entropy_bin_bounds self X =
     (case check_dataframe X (cols self) True of
        Inl e \<Rightarrow> Inl e
      | Inr (X1, cs) \<Rightarrow>
          (case normalize_n_bins (bt_n_bins self) cs of
             Inl e \<Rightarrow> Inl e
           | Inr d \<Rightarrow>
               (case validate_counts d of
                  Inl e \<Rightarrow> Inl e
                | Inr d' \<Rightarrow>
                    (case STRATEGIES entropy_bin_bounds (strategy self) of
                       None \<Rightarrow>
                         Inl (ValueError (''strategy must be one of [entropy, uniform], but got ''
                                            @ strategy self))
                     | Some binner \<Rightarrow>
                         (case fit_loop binner X1 d' [] of
                            Inl e \<Rightarrow> Inl e
                          | Inr bins \<Rightarrow> Inr (bins, cs))))))"

text \<open>
  \<^verbatim>\<open>BinningTransformer.fit\<close>: the outcome of the call, and the transformer after it.
  An exception leaves the object as it was; the two attributes are set in the last two
  statements.
\<close>

definition fit ::
  "entropy_kernel \<Rightarrow> BinningTransformer \<Rightarrow> frame \<Rightarrow> (error + unit) \<times> BinningTransformer" where
  "fit entropy_bin_bounds self X =
     (case fit_compute entropy_bin_bounds self X of
        Inl e \<Rightarrow> (Inl e, self)
      | Inr (bins, cs) \<Rightarrow> (Inr (), self\<lparr> bt_bins := Some bins, bt_fit_cols := Some cs \<rparr>))"

text \<open>The loop of transform over the fit columns, on its copy of the table.\<close>

fun transform_loop ::
  "BinningTransformer \<Rightarrow> (string \<times> Bins) list \<Rightarrow> string list \<Rightarrow> frame \<Rightarrow> error + frame" where
  "transform_loop self bins [] X = Inr X"
| "transform_loop self bins (col # rest) X =
     (case map_of bins col of
        None \<Rightarrow> Inl (KeyError col)
      | Some bin \<Rightarrow>
          (case column X col of
             Inl e \<Rightarrow> Inl e
           | Inr cells \<Rightarrow>
               (case numeric_values cells of
                  Inl e \<Rightarrow> Inl e
                | Inr v \<Rightarrow>
                    (case assign bin v (return_bin_label self) of
                       Inl e \<Rightarrow> Inl e
                     | Inr binned \<Rightarrow>
                         transform_loop self bins rest
                           (if overwrite self then set_column X col (cells_of binned)
                            else set_column X (col @ ''_binned'') (cells_of binned))))))"

datatype transformed = DataFrame frame | NDArray "cell list list"

text \<open>
  \<^verbatim>\<open>BinningTransformer.transform\<close>. \<^verbatim>\<open>check_is_fitted(self, 'bins_')\<close> of
  scikit-learn raises NotFittedError when the attribute is not there.
\<close>

definition transform :: "BinningTransformer \<Rightarrow> frame \<Rightarrow> error + transformed" where
  "transform self X =
     (case bt_bins self of
        None \<Rightarrow> Inl NotFittedError
      | Some bins \<Rightarrow>
          (case check_dataframe X (cols self) False of
             Inl e \<Rightarrow> Inl e
           | Inr (X1, _) \<Rightarrow>
               (case bt_fit_cols self of
                  None \<Rightarrow> Inl (AttributeError ''fit_cols_'')
                | Some cs \<Rightarrow>
                    (case validate_test_set_columns cs (map fst X1) of
                       Inl e \<Rightarrow> Inl e
                     | Inr _ \<Rightarrow>
                         (case transform_loop self bins cs X1 of
                            Inl e \<Rightarrow> Inl e
                          | Inr X2 \<Rightarrow>
                              Inr (if as_df self then DataFrame X2
                                   else NDArray (frame_values X2)))))))"

section \<open>Auxiliary notions and example inputs\<close>

text \<open>How many of the bounds a value does not reach: the number of times the scan decrements it.\<close>

definition misses :: "npfloat list \<Rightarrow> npfloat \<Rightarrow> nat" where
  "misses bs x = length (filter (\<lambda>bd. \<not> fge x bd) bs)"

text \<open>The chunks of the comment in \<^verbatim>\<open>_uniform\<close>, and the bins built from them.\<close>

definition example_chunks :: "real list list" where
  "example_chunks = [[0, 1, 2], [3, 4, 5], [6, 7], [8, 9]]"

definition example_bins :: Bins where
  "example_bins =
     \<lparr> n_bins = 4,
       upper_bounds = [Fin 3, Fin 6, Fin 8, PInf],
       lower_bounds = [NInf, Fin 3, Fin 6, Fin 8],
       reprs = [''(-Inf, 3.00]'', ''(3.00, 6.00]'', ''(6.00, 8.00]'', ''(8.00, Inf]''] \<rparr>"

text \<open>The labels that \<^verbatim>\<open>_Bins.__init__\<close> gives the bins of at least two chunks, in closed form.\<close>

definition labels_of :: "real list list \<Rightarrow> string list" where
  "labels_of chunks =
     (''(-Inf, '' @ fmt2 (hd (chunks ! 1)) @ '']'') #
     map (\<lambda>z. ''('' @ fmt2 (hd (fst z)) @ '', '' @ fmt2 (hd (snd z)) @ '']'')
       (zip (tl chunks) (tl (tl chunks))) @
     [''('' @ fmt2 (hd (last chunks)) @ '', Inf]'']"

text \<open>The sample \<^verbatim>\<open>np.arange(10)\<close>, and the bins of the single chunk \<^verbatim>\<open>[1.0]\<close>.\<close>

definition example_sample :: "real list" where
  "example_sample = [0, 1, 2, 3, 4, 5, 6, 7, 8, 9]"

definition single_chunk_bins :: Bins where
  "single_chunk_bins =
     \<lparr> n_bins = 1, upper_bounds = [PInf], lower_bounds = [Fin 1], reprs = [''(1.00, Inf]''] \<rparr>"

text \<open>The bins of the chunks \<^verbatim>\<open>[1.0]\<close>, \<^verbatim>\<open>[2.0]\<close>, \<^verbatim>\<open>[2.0]\<close>, two of which start with the same value.\<close>

definition tied_bins :: Bins where
  "tied_bins =
     \<lparr> n_bins = 3, upper_bounds = [Fin 2, Fin 2, PInf], lower_bounds = [NInf, Fin 2, Fin 2],
       reprs = [''(-Inf, 2.00]'', ''(2.00, 2.00]'', ''(2.00, Inf]''] \<rparr>"

text \<open>An entropy kernel that returns no groups, an unfitted and a fitted transformer, and tables.\<close>

definition no_kernel :: entropy_kernel where
  "no_kernel x unique cts = []"

definition example_engine :: BinningTransformer where
  "example_engine =
     \<lparr> cols = Some [''x''], as_df = True, bt_n_bins = NScalar (PyInt 2), strategy = ''uniform'',
       return_bin_label = False, overwrite = False, bt_bins = None, bt_fit_cols = None \<rparr>"

definition example_frame :: frame where
  "example_frame =
     [(''x'', [Num (Fin 1), Num (Fin 2), Num (Fin 3)]),
      (''y'', [Num (Fin 5), Num (Fin 4), Num (Fin 7)])]"

definition constant_frame :: frame where
  "constant_frame = [(''x'', [Num (Fin 1), Num (Fin 1), Num (Fin 1)])]"

definition two_bins :: Bins where
  "two_bins =
     \<lparr> n_bins = 2, upper_bounds = [Fin 3, PInf], lower_bounds = [NInf, Fin 3],
       reprs = [''(-Inf, 3.00]'', ''(3.00, Inf]''] \<rparr>"

definition fitted_engine :: BinningTransformer where
  "fitted_engine = example_engine\<lparr> bt_bins := Some [(''x'', two_bins)], bt_fit_cols := Some [''x''] \<rparr>"

text \<open>
  The table that the fitted transformer returns for the example table, and a transformer
  fit on a column and on the column of its derived name.
\<close>

definition binned_frame :: frame where
  "binned_frame =
     [(''x'', [Num (Fin 1), Num (Fin 2), Num (Fin 3)]),
      (''y'', [Num (Fin 5), Num (Fin 4), Num (Fin 7)]),
      (''x_binned'', [Num (Fin 0), Num (Fin 0), Num (Fin 1)])]"

definition collision_frame :: frame where
  "collision_frame =
     [(''x'', [Num (Fin 1), Num (Fin 2), Num (Fin 3)]),
      (''x_binned'', [Num (Fin 5), Num (Fin 4), Num (Fin 7)])]"

definition seven_bins :: Bins where
  "seven_bins =
     \<lparr> n_bins = 2, upper_bounds = [Fin 7, PInf], lower_bounds = [NInf, Fin 7],
       reprs = [''(-Inf, 7.00]'', ''(7.00, Inf]''] \<rparr>"

definition collision_engine :: BinningTransformer where
  "collision_engine = example_engine\<lparr> cols := Some [''x'', ''x_binned''] \<rparr>"

definition collision_fitted :: BinningTransformer where
  "collision_fitted =
     collision_engine\<lparr> bt_bins := Some [(''x'', two_bins), (''x_binned'', seven_bins)],
                       bt_fit_cols := Some [''x'', ''x_binned''] \<rparr>"

definition collision_result :: frame where
  "collision_result =
     [(''x'', [Num (Fin 1), Num (Fin 2), Num (Fin 3)]),
      (''x_binned'', [Num (Fin 0), Num (Fin 0), Num (Fin 1)]),
      (''x_binned_binned'', [Num (Fin 0), Num (Fin 0), Num (Fin 0)])]"

section \<open>The scan of assign\<close>

lemma assign_step_length:
  "length bins = length v \<Longrightarrow> length (assign_step v bins a) = length v"
  by (simp add: assign_step_def decrement_where_def Let_def)

lemma assign_step_nth:
  "length bins = length v \<Longrightarrow> j < length v \<Longrightarrow>
   assign_step v bins a ! j = (if fge (v ! j) a then bins ! j else bins ! j - 1)"
  by (cases "v = []") (simp_all add: assign_step_def decrement_where_def Let_def)

lemma foldl_assign_step_length:
  "length bins = length v \<Longrightarrow> length (foldl (assign_step v) bins bs) = length v"
  by (induction bs arbitrary: bins) (simp_all add: assign_step_length)

lemma foldl_assign_step_nth:
  "length bins = length v \<Longrightarrow> j < length v \<Longrightarrow>
   foldl (assign_step v) bins bs ! j = bins ! j - int (misses bs (v ! j))"
proof (induction bs arbitrary: bins)
  case Nil
  then show ?case by (simp add: misses_def)
next
  case (Cons a bs)
  have "foldl (assign_step v) bins (a # bs) ! j = assign_step v bins a ! j - int (misses bs (v ! j))"
    using Cons.IH [of "assign_step v bins a"] Cons.prems by (simp add: assign_step_length)
  then show ?case using Cons.prems by (simp add: assign_step_nth misses_def)
qed

lemma misses_rev: "misses (rev bs) x = misses bs x"
  by (simp add: misses_def rev_filter [symmetric])

lemma assign_levels:
  "assign b v False = Inr (Levels (map (\<lambda>x. n_bins b - 1 - int (misses (lower_bounds b) x)) v))"
proof -
  let ?r = "foldl (assign_step v) (replicate (length v) (n_bins b - 1)) (rev (lower_bounds b))"
  have "?r = map (\<lambda>x. n_bins b - 1 - int (misses (lower_bounds b) x)) v"
    by (rule nth_equalityI) (simp_all add: foldl_assign_step_length foldl_assign_step_nth misses_rev)
  then show ?thesis by (simp add: assign_def Let_def)
qed

lemma fge_trans: "fge a b \<Longrightarrow> fge b c \<Longrightarrow> fge a c"
  by (cases a; cases b; cases c) auto

lemma misses_le_length: "misses bs x \<le> length bs"
  by (simp add: misses_def)

lemma misses_all: "\<forall>b \<in> set bs. \<not> fge x b \<Longrightarrow> misses bs x = length bs"
  by (simp add: misses_def)

lemma misses_Cons: "misses (a # bs) x = (if fge x a then misses bs x else Suc (misses bs x))"
  by (simp add: misses_def)

text \<open>Among non-decreasing bounds, those that a value reaches come first.\<close>

lemma sorted_prefix:
  "sorted_wrt (\<lambda>a b. fge b a) bs \<Longrightarrow>
   \<exists>p. p + misses bs x = length bs \<and> (\<forall>k<p. fge x (bs ! k)) \<and> (\<forall>k. p \<le> k \<and> k < length bs \<longrightarrow> \<not> fge x (bs ! k))"
proof (induction bs)
  case Nil
  then show ?case by (simp add: misses_def)
next
  case (Cons a bs)
  show ?case
  proof (cases "fge x a")
    case True
    from Cons obtain p where p: "p + misses bs x = length bs" "\<forall>k<p. fge x (bs ! k)"
      "\<forall>k. p \<le> k \<and> k < length bs \<longrightarrow> \<not> fge x (bs ! k)" by auto
    have "Suc p + misses (a # bs) x = length (a # bs)" using p True by (simp add: misses_Cons)
    moreover have "\<forall>k<Suc p. fge x ((a # bs) ! k)" using p True by (auto simp: nth_Cons split: nat.splits)
    moreover have "\<forall>k. Suc p \<le> k \<and> k < length (a # bs) \<longrightarrow> \<not> fge x ((a # bs) ! k)"
      using p by (auto simp: nth_Cons split: nat.splits)
    ultimately show ?thesis by blast
  next
    case False
    have all: "\<forall>b \<in> set bs. \<not> fge x b"
    proof
      fix b assume "b \<in> set bs"
      then have "fge b a" using Cons.prems by simp
      then show "\<not> fge x b" using False fge_trans by blast
    qed
    have "0 + misses (a # bs) x = length (a # bs)" using False all by (simp add: misses_Cons misses_all)
    moreover have "\<forall>k. 0 \<le> k \<and> k < length (a # bs) \<longrightarrow> \<not> fge x ((a # bs) ! k)"
      using False all by (auto simp: nth_Cons split: nat.splits)
    ultimately show ?thesis by (metis not_less_zero)
  qed
qed

section \<open>The lists of the constructor\<close>

lemma first_nonempty: "xs \<noteq> [] \<Longrightarrow> first xs = Inr (hd xs)"
  by (cases xs) simp_all

lemma first_Inr: "first xs = Inr x \<Longrightarrow> xs \<noteq> [] \<and> x = hd xs"
  by (cases xs) simp_all

lemma init_loop_lengths:
  "init_loop i zs (u, l, r) = Inr (u', l', r') \<Longrightarrow>
   length u' = length u + length zs \<and> length l' = length l + length zs \<and>
   length r' = length r + length zs \<and> take (length l) l' = l"
proof (induction zs arbitrary: i u l r)
  case Nil
  then show ?case by simp
next
  case (Cons z zs)
  obtain a b where z: "z = (a, b)" by (cases z)
  from Cons.prems z obtain ub where ub: "first b = Inr ub"
    by (auto split: sum.splits)
  show ?case
  proof (cases "i = 0")
    case True
    with Cons.prems z ub
    have "init_loop (Suc i) zs (u @ [Fin ub], l @ [NInf], r @ [''(-Inf, '' @ fmt2 ub @ '']'']) = Inr (u', l', r')"
      by simp
    from Cons.IH [OF this] show ?thesis
      by (auto simp: take_Suc_conv_app_nth dest: arg_cong [where f = "take (length l)"])
  next
    case False
    with Cons.prems z ub obtain lb where lb: "first a = Inr lb"
      by (auto split: sum.splits)
    with False Cons.prems z ub
    have "init_loop (Suc i) zs (u @ [Fin ub], l @ [Fin lb],
            r @ [''('' @ fmt2 lb @ '', '' @ fmt2 ub @ '']'']) = Inr (u', l', r')"
      by simp
    from Cons.IH [OF this] show ?thesis
      by (auto dest: arg_cong [where f = "take (length l)"])
  qed
qed

lemma Bins_init_Inr:
  assumes "Bins_init chunks = Inr b"
  obtains ubs lbs rs l where
    "chunks \<noteq> []"
    "init_loop 0 (zip (butlast chunks) (tl chunks)) ([], [], []) = Inr (ubs, lbs, rs)"
    "first (last chunks) = Inr l"
    "b = \<lparr> n_bins = int (length chunks), upper_bounds = ubs @ [PInf],
           lower_bounds = lbs @ [Fin l], reprs = rs @ [''('' @ fmt2 l @ '', Inf]''] \<rparr>"
  using assms unfolding Bins_init_def
  by (auto split: sum.splits prod.splits if_splits)

lemma Bins_init_lengths:
  assumes "Bins_init chunks = Inr b"
  shows "n_bins b = int (length chunks)"
    and "length (lower_bounds b) = length chunks"
    and "length (upper_bounds b) = length chunks"
    and "length (reprs b) = length chunks"
    and "chunks \<noteq> []"
proof -
  from assms obtain ubs lbs rs l where h: "chunks \<noteq> []"
    "init_loop 0 (zip (butlast chunks) (tl chunks)) ([], [], []) = Inr (ubs, lbs, rs)"
    "b = \<lparr> n_bins = int (length chunks), upper_bounds = ubs @ [PInf],
           lower_bounds = lbs @ [Fin l], reprs = rs @ [''('' @ fmt2 l @ '', Inf]''] \<rparr>"
    by (rule Bins_init_Inr)
  from init_loop_lengths [OF h(2)] h(1)
  have "length ubs = length chunks - 1" "length lbs = length chunks - 1" "length rs = length chunks - 1"
    by simp_all
  with h(1,3) show "n_bins b = int (length chunks)" "length (lower_bounds b) = length chunks"
    "length (upper_bounds b) = length chunks" "length (reprs b) = length chunks" "chunks \<noteq> []"
    by (simp_all add: Suc_leI)
qed

lemma Bins_init_first_lower:
  assumes "Bins_init chunks = Inr b" and "2 \<le> length chunks"
  shows "lower_bounds b ! 0 = NInf"
proof -
  from assms(1) obtain ubs lbs rs l where h:
    "init_loop 0 (zip (butlast chunks) (tl chunks)) ([], [], []) = Inr (ubs, lbs, rs)"
    "b = \<lparr> n_bins = int (length chunks), upper_bounds = ubs @ [PInf],
           lower_bounds = lbs @ [Fin l], reprs = rs @ [''('' @ fmt2 l @ '', Inf]''] \<rparr>"
    by (rule Bins_init_Inr)
  from assms(2) obtain c0 c1 cs where c: "chunks = c0 # c1 # cs"
    by (cases chunks; cases "tl chunks") auto
  from h(1) c obtain ub where
    "init_loop (Suc 0) (zip (butlast (c1 # cs)) cs) ([Fin ub], [NInf], [''(-Inf, '' @ fmt2 ub @ '']'']) = Inr (ubs, lbs, rs)"
    by (auto split: sum.splits)
  from init_loop_lengths [OF this] have "take 1 lbs = [NInf]" by simp
  then have "lbs \<noteq> [] \<and> lbs ! 0 = NInf" by (cases lbs) simp_all
  with h(2) show ?thesis by (simp add: nth_append)
qed

lemma largest_index:
  assumes sorted: "sorted_wrt (\<lambda>lo hi. fge hi lo) bs"
      and first: "bs \<noteq> []" "bs ! 0 = NInf"
      and x: "x \<noteq> NaN"
  shows "\<exists>m. int m = int (length bs) - 1 - int (misses bs x) \<and> m < length bs \<and> fge x (bs ! m) \<and>
             (\<forall>k<length bs. fge x (bs ! k) \<longrightarrow> k \<le> m)"
proof -
  from sorted_prefix [OF sorted, of x] obtain p where p: "p + misses bs x = length bs"
    "\<forall>k<p. fge x (bs ! k)" "\<forall>k. p \<le> k \<and> k < length bs \<longrightarrow> \<not> fge x (bs ! k)" by blast
  have "fge x (bs ! 0)" using first x by (cases x) simp_all
  with p(3) first(1) have pos: "0 < p" by (metis length_greater_0_conv not_gr_zero zero_le)
  let ?m = "p - 1"
  have "int ?m = int (length bs) - 1 - int (misses bs x)" using p(1) pos by linarith
  moreover have "?m < length bs" using p(1) pos by linarith
  moreover have "fge x (bs ! ?m)" using p(2) pos by simp
  moreover have "\<forall>k<length bs. fge x (bs ! k) \<longrightarrow> k \<le> ?m"
  proof (intro allI impI)
    fix k assume "k < length bs" "fge x (bs ! k)"
    with p(3) have "k < p" by (meson not_le)
    then show "k \<le> ?m" by simp
  qed
  ultimately show ?thesis by blast
qed

text \<open>
  C1: for every \<^verbatim>\<open>_Bins\<close> object whose lower bounds are non-decreasing and start with
  -inf, and every vector of numbers (finite, or infinite: anything but NaN),
  \<^verbatim>\<open>assign(v, as_str=False)\<close> returns one index per element, and that index is the
  largest index i of a lower bound with \<open>v[j] >= lower_bounds[i]\<close>: the element reaches
  that bound, and every bound it reaches has an index that is not larger.
\<close>

theorem assign_largest_index:
  assumes init: "Bins_init chunks = Inr b"
      and sorted: "sorted_wrt (\<lambda>lo hi. fge hi lo) (lower_bounds b)"
      and first: "lower_bounds b ! 0 = NInf"
      and v: "\<forall>x \<in> set v. x \<noteq> NaN"
  shows "\<exists>r. assign b v False = Inr (Levels r) \<and> length r = length v \<and>
           (\<forall>j<length v. 0 \<le> r ! j \<and> nat (r ! j) < length (lower_bounds b) \<and>
              fge (v ! j) (lower_bounds b ! nat (r ! j)) \<and>
              (\<forall>k<length (lower_bounds b). fge (v ! j) (lower_bounds b ! k) \<longrightarrow> int k \<le> r ! j))"
proof -
  let ?bs = "lower_bounds b"
  let ?r = "map (\<lambda>x. n_bins b - 1 - int (misses ?bs x)) v"
  have n: "n_bins b = int (length ?bs)" and ne: "?bs \<noteq> []"
    using Bins_init_lengths [OF init] by auto
  have "\<forall>j<length v. 0 \<le> ?r ! j \<and> nat (?r ! j) < length ?bs \<and>
          fge (v ! j) (?bs ! nat (?r ! j)) \<and>
          (\<forall>k<length ?bs. fge (v ! j) (?bs ! k) \<longrightarrow> int k \<le> ?r ! j)"
  proof (intro allI impI)
    fix j assume j: "j < length v"
    then have "v ! j \<noteq> NaN" using v by simp
    from largest_index [OF sorted ne first this] obtain m where m:
      "int m = int (length ?bs) - 1 - int (misses ?bs (v ! j))" "m < length ?bs"
      "fge (v ! j) (?bs ! m)" "\<forall>k<length ?bs. fge (v ! j) (?bs ! k) \<longrightarrow> k \<le> m" by blast
    have r: "?r ! j = int m" using j m(1) n by simp
    show "0 \<le> ?r ! j \<and> nat (?r ! j) < length ?bs \<and> fge (v ! j) (?bs ! nat (?r ! j)) \<and>
          (\<forall>k<length ?bs. fge (v ! j) (?bs ! k) \<longrightarrow> int k \<le> ?r ! j)"
      unfolding r using m(2,3,4) by simp
  qed
  then show ?thesis using assign_levels [of b v] by (intro exI [of _ ?r]) simp
qed

theorem assign_largest_index_witness:
  "Bins_init example_chunks = Inr example_bins \<and>
   sorted_wrt (\<lambda>lo hi. fge hi lo) (lower_bounds example_bins) \<and>
   lower_bounds example_bins ! 0 = NInf \<and>
   NaN \<notin> set [Fin 7, Fin (- 1), PInf] \<and>
   assign example_bins [Fin 7, Fin (- 1), PInf] False = Inr (Levels [2, 0, 3]) \<and>
   (\<exists>r. assign example_bins [Fin 7, Fin (- 1), PInf] False = Inr (Levels r) \<and>
        length r = length [Fin 7, Fin (- 1), PInf] \<and>
        (\<forall>j<length [Fin 7, Fin (- 1), PInf].
           0 \<le> r ! j \<and> nat (r ! j) < length (lower_bounds example_bins) \<and>
           fge ([Fin 7, Fin (- 1), PInf] ! j) (lower_bounds example_bins ! nat (r ! j)) \<and>
           (\<forall>k<length (lower_bounds example_bins).
              fge ([Fin 7, Fin (- 1), PInf] ! j) (lower_bounds example_bins ! k) \<longrightarrow> int k \<le> r ! j)))"
proof -
  have h1: "Bins_init example_chunks = Inr example_bins"
    by (simp add: example_chunks_def example_bins_def Bins_init_def fmt2_def
        round_half_even_def show_nat.simps digit_char_def)
  have h2: "sorted_wrt (\<lambda>lo hi. fge hi lo) (lower_bounds example_bins)"
    by (simp add: example_bins_def)
  have h3: "lower_bounds example_bins ! 0 = NInf"
    by (simp add: example_bins_def)
  have h4: "\<forall>x \<in> set [Fin 7, Fin (- 1), PInf]. x \<noteq> NaN"
    by simp
  have h5: "assign example_bins [Fin 7, Fin (- 1), PInf] False = Inr (Levels [2, 0, 3])"
    by (simp add: example_bins_def assign_def assign_step_def decrement_where_def)
  from assign_largest_index [OF h1 h2 h3 h4] h1 h2 h3 h4 h5 show ?thesis
    by simp
qed

lemma misses_first_NInf:
  assumes "bs \<noteq> []" "bs ! 0 = NInf" "x \<noteq> NaN"
  shows "misses bs x < length bs"
proof -
  from assms(1,2) obtain rest where bs: "bs = NInf # rest" by (cases bs) auto
  have "fge x NInf" using assms(3) by (cases x) simp_all
  then show ?thesis unfolding bs using misses_le_length [of rest x] by (simp add: misses_Cons)
qed

lemma sequence_results_map:
  "\<forall>x \<in> set xs. \<exists>y. f x = Inr y \<Longrightarrow>
   \<exists>ys. sequence_results (map f xs) = Inr ys \<and> length ys = length xs"
  by (induction xs) auto

lemma py_index_in_range: "0 \<le> i \<Longrightarrow> i < int (length xs) \<Longrightarrow> py_index xs i = Inr (xs ! nat i)"
  by (simp add: py_index_def)

text \<open>
  The range of the bins, for every vector without NaN. For the \<^verbatim>\<open>_Bins\<close> object of
  a fitted feature (built from the chunks of at least two bins, the least that fit accepts)
  and every vector of numbers, finite or infinite, below the smallest or above the largest
  bound as they may be, \<^verbatim>\<open>assign\<close> raises nothing, with levels or with labels,
  returns one bin per element, and every level lies in \<open>[0, n_bins - 1]\<close>.
\<close>

theorem assign_in_range:
  assumes init: "Bins_init chunks = Inr b"
      and two: "2 \<le> length chunks"
      and v: "\<forall>x \<in> set v. x \<noteq> NaN"
  shows "(\<exists>r. assign b v False = Inr (Levels r) \<and> length r = length v \<and>
              (\<forall>i \<in> set r. 0 \<le> i \<and> i \<le> n_bins b - 1)) \<and>
         (\<exists>ls. assign b v True = Inr (Labels ls) \<and> length ls = length v)"
proof -
  let ?bs = "lower_bounds b"
  let ?r = "map (\<lambda>x. n_bins b - 1 - int (misses ?bs x)) v"
  have n: "n_bins b = int (length ?bs)" and ne: "?bs \<noteq> []" and len: "length (reprs b) = length ?bs"
    using Bins_init_lengths [OF init] by auto
  have first: "?bs ! 0 = NInf" by (rule Bins_init_first_lower [OF init two])
  have range: "\<forall>i \<in> set ?r. 0 \<le> i \<and> i \<le> n_bins b - 1"
  proof
    fix i assume "i \<in> set ?r"
    then obtain x where x: "x \<in> set v" "i = n_bins b - 1 - int (misses ?bs x)" by auto
    then have "misses ?bs x < length ?bs" using misses_first_NInf [OF ne first] v by blast
    then show "0 \<le> i \<and> i \<le> n_bins b - 1" using x(2) n by simp
  qed
  have levels: "assign b v False = Inr (Levels ?r)" by (rule assign_levels)
  have "\<forall>i \<in> set ?r. \<exists>y. py_index (reprs b) i = Inr y"
    using range n len by (auto simp: py_index_in_range)
  from sequence_results_map [OF this] obtain ls where
    ls: "sequence_results (map (py_index (reprs b)) ?r) = Inr ls" "length ls = length ?r" by blast
  have "assign b v True = Inr (Labels ls)"
    using ls(1) levels by (simp add: assign_def Let_def)
  with levels range ls(2) show ?thesis by auto
qed

theorem assign_in_range_witness:
  "Bins_init example_chunks = Inr example_bins \<and> 2 \<le> length example_chunks \<and>
   NaN \<notin> set [Fin (- 1000), Fin 1000, NInf, PInf] \<and>
   assign example_bins [Fin (- 1000), Fin 1000, NInf, PInf] False = Inr (Levels [0, 3, 0, 3]) \<and>
   (\<exists>r. assign example_bins [Fin (- 1000), Fin 1000, NInf, PInf] False = Inr (Levels r) \<and>
        length r = length [Fin (- 1000), Fin 1000, NInf, PInf] \<and>
        (\<forall>i \<in> set r. 0 \<le> i \<and> i \<le> n_bins example_bins - 1)) \<and>
   (\<exists>ls. assign example_bins [Fin (- 1000), Fin 1000, NInf, PInf] True = Inr (Labels ls) \<and>
         length ls = length [Fin (- 1000), Fin 1000, NInf, PInf])"
proof -
  have h1: "Bins_init example_chunks = Inr example_bins"
    by (simp add: example_chunks_def example_bins_def Bins_init_def fmt2_def
        round_half_even_def show_nat.simps digit_char_def)
  have h2: "2 \<le> length example_chunks"
    by (simp add: example_chunks_def)
  have h3: "\<forall>x \<in> set [Fin (- 1000), Fin 1000, NInf, PInf]. x \<noteq> NaN"
    by simp
  have h4: "assign example_bins [Fin (- 1000), Fin 1000, NInf, PInf] False = Inr (Levels [0, 3, 0, 3])"
    by (simp add: example_bins_def assign_def assign_step_def decrement_where_def)
  from assign_in_range [OF h1 h2 h3] h1 h2 h3 h4 show ?thesis
    by simp
qed

lemma misses_antimono: "fge y x \<Longrightarrow> misses bs y \<le> misses bs x"
  unfolding misses_def
proof (induction bs)
  case Nil
  then show ?case by simp
next
  case (Cons a bs)
  have "fge x a \<Longrightarrow> fge y a" using Cons.prems fge_trans by blast
  with Cons show ?case by auto
qed

text \<open>
  C4: the bin index is non-decreasing in the value. For every \<^verbatim>\<open>_Bins\<close> object and any
  two values with \<open>v1 <= v2\<close> (as numpy compares them: all pairs of finite values in
  that order are among them), wherever they stand in the vectors given to
  \<^verbatim>\<open>assign\<close>, the index of v1 is at most the index of v2.
\<close>

theorem assign_monotone:
  assumes "i < length xs" and "j < length ys" and "fge (ys ! j) (xs ! i)"
  shows "\<exists>r s. assign b xs False = Inr (Levels r) \<and> assign b ys False = Inr (Levels s) \<and>
               length r = length xs \<and> length s = length ys \<and> r ! i \<le> s ! j"
  using assms misses_antimono [OF assms(3), of "lower_bounds b"]
  by (simp add: assign_levels)

theorem assign_monotone_witness:
  "0 < length [Fin 2, Fin 9] \<and> 1 < length [Fin 0, Fin 7] \<and>
   fge ([Fin 0, Fin 7] ! 1) ([Fin 2, Fin 9] ! 0) \<and>
   (\<exists>r s. assign example_bins [Fin 2, Fin 9] False = Inr (Levels r) \<and>
          assign example_bins [Fin 0, Fin 7] False = Inr (Levels s) \<and>
          length r = length [Fin 2, Fin 9] \<and> length s = length [Fin 0, Fin 7] \<and>
          r ! 0 \<le> s ! 1)"
proof -
  have h1: "0 < length [Fin 2, Fin 9]" by simp
  have h2: "1 < length [Fin 0, Fin 7]" by simp
  have h3: "fge ([Fin 0, Fin 7] ! 1) ([Fin 2, Fin 9] ! 0)" by simp
  from assign_monotone [OF h1 h2 h3, of example_bins] h1 h2 h3 show ?thesis
    by blast
qed

section \<open>The bins built by the constructor\<close>

lemma init_loop_closed:
  assumes "0 < i" and "\<forall>z \<in> set zs. fst z \<noteq> [] \<and> snd z \<noteq> []"
  shows "init_loop i zs (u, l, r) =
         Inr (u @ map (\<lambda>z. Fin (hd (snd z))) zs,
              l @ map (\<lambda>z. Fin (hd (fst z))) zs,
              r @ map (\<lambda>z. ''('' @ fmt2 (hd (fst z)) @ '', '' @ fmt2 (hd (snd z)) @ '']'') zs)"
  using assms
proof (induction zs arbitrary: i u l r)
  case Nil
  then show ?case by simp
next
  case (Cons z zs)
  obtain a b where z: "z = (a, b)" by (cases z)
  with Cons.prems have ne: "a \<noteq> []" "b \<noteq> []" by auto
  have rest: "\<forall>z \<in> set zs. fst z \<noteq> [] \<and> snd z \<noteq> []" using Cons.prems by simp
  show ?case
    using Cons.prems(1) ne z Cons.IH [OF _ rest, of "Suc i"]
    by (simp add: first_nonempty)
qed

lemma zip_butlast_tl: "zip (butlast (c # cs)) cs = zip (c # cs) cs"
  by (induction cs arbitrary: c) simp_all

lemma map_snd_zip_Cons: "map (\<lambda>z. f (snd z)) (zip (c # cs) cs) = map f cs"
proof -
  have "map snd (zip (c # cs) cs) = cs" by (simp add: map_snd_zip_take)
  then have "map f (map snd (zip (c # cs) cs)) = map f cs" by simp
  then show ?thesis by (simp add: comp_def)
qed

lemma map_fst_zip_Cons: "map (\<lambda>z. f (fst z)) (zip (c # cs) cs) = map f (butlast (c # cs))"
proof -
  have "map fst (zip (c # cs) cs) = butlast (c # cs)"
    by (simp add: map_fst_zip_take butlast_conv_take min_def)
  then have "map f (map fst (zip (c # cs) cs)) = map f (butlast (c # cs))" by simp
  then show ?thesis by (simp add: comp_def)
qed

lemma map_butlast_last: "xs \<noteq> [] \<Longrightarrow> map f (butlast xs) @ [f (last xs)] = map f xs"
  by (induction xs) auto

lemma Bins_init_closed:
  assumes "2 \<le> length chunks" and "\<forall>c \<in> set (tl chunks). c \<noteq> []"
  shows "Bins_init chunks =
         Inr \<lparr> n_bins = int (length chunks),
               upper_bounds = map (\<lambda>c. Fin (hd c)) (tl chunks) @ [PInf],
               lower_bounds = NInf # map (\<lambda>c. Fin (hd c)) (tl chunks),
               reprs = labels_of chunks \<rparr>"
proof -
  from assms(1) obtain c0 c1 cs where c: "chunks = c0 # c1 # cs"
    by (cases chunks; cases "tl chunks") auto
  have ne: "c1 \<noteq> []" "\<forall>c \<in> set cs. c \<noteq> []" using assms(2) c by auto
  have zs: "\<forall>z \<in> set (zip (c1 # cs) cs). fst z \<noteq> [] \<and> snd z \<noteq> []"
  proof
    fix z assume "z \<in> set (zip (c1 # cs) cs)"
    then have "(fst z, snd z) \<in> set (zip (c1 # cs) cs)" by simp
    then have "fst z \<in> set (c1 # cs)" "snd z \<in> set cs"
      by (rule set_zip_leftD, rule set_zip_rightD)
    then show "fst z \<noteq> [] \<and> snd z \<noteq> []" using ne by auto
  qed
  have last_ne: "last (c1 # cs) \<noteq> []" using ne by (metis last_in_set list.distinct(1) set_ConsD)
  have loop: "init_loop 0 (zip (butlast chunks) (tl chunks)) ([], [], []) =
        Inr ([Fin (hd c1)] @ map (\<lambda>c. Fin (hd c)) cs,
             [NInf] @ map (\<lambda>c. Fin (hd c)) (butlast (c1 # cs)),
             [''(-Inf, '' @ fmt2 (hd c1) @ '']''] @
               map (\<lambda>z. ''('' @ fmt2 (hd (fst z)) @ '', '' @ fmt2 (hd (snd z)) @ '']'') (zip (c1 # cs) cs))"
    unfolding c
    using init_loop_closed [OF _ zs, of "Suc 0"] ne(1)
    by (simp add: first_nonempty zip_butlast_tl map_snd_zip_Cons [of "\<lambda>c. Fin (hd c)"]
        map_fst_zip_Cons [of "\<lambda>c. Fin (hd c)"] del: butlast.simps)
  have lbs: "map (\<lambda>c. Fin (hd c)) (butlast (c1 # cs)) @ [Fin (hd (last (c1 # cs)))] = map (\<lambda>c. Fin (hd c)) (c1 # cs)"
    by (rule map_butlast_last) simp
  show ?thesis
    unfolding Bins_init_def loop
    using last_ne lbs c
    by (simp add: first_nonempty labels_of_def del: butlast.simps)
qed

lemma sorted_wrt_heads:
  "sorted_wrt R (concat chunks) \<Longrightarrow> \<forall>c \<in> set chunks. c \<noteq> [] \<Longrightarrow> sorted_wrt R (map hd chunks)"
proof (induction chunks)
  case Nil
  then show ?case by simp
next
  case (Cons c cs)
  have "\<forall>d \<in> set cs. R (hd c) (hd d)"
  proof
    fix d assume d: "d \<in> set cs"
    then have "d \<noteq> []" "c \<noteq> []" using Cons.prems(2) by auto
    then have "hd c \<in> set c" "hd d \<in> set d" by simp_all
    then have "hd c \<in> set c" "hd d \<in> set (concat cs)" using d by auto
    then show "R (hd c) (hd d)" using Cons.prems(1) by (auto simp: sorted_wrt_append)
  qed
  moreover have "sorted_wrt R (map hd cs)"
    using Cons by (simp add: sorted_wrt_append)
  ultimately show ?case by simp
qed

lemma bounds_sorted:
  assumes "sorted_wrt (\<lambda>x y. x \<le> y) (map hd cs)"
  shows "sorted_wrt (\<lambda>lo hi. fge hi lo) (NInf # map (\<lambda>c. Fin (hd c)) cs)"
    and "sorted_wrt (\<lambda>lo hi. fge hi lo) (map (\<lambda>c. Fin (hd c)) cs @ [PInf])"
  using assms by (simp_all add: sorted_wrt_map sorted_wrt_append)

text \<open>
  C8, amended: for every list of at least two chunks, each non-empty and the whole
  ascending, \<^verbatim>\<open>_Bins\<close> is constructed without error, its three lists have as many
  entries as there are chunks, which is \<^verbatim>\<open>n_bins\<close>, the lower bounds and the upper
  bounds are non-decreasing, the first lower bound is -inf and the last upper bound is
  +inf.
\<close>

theorem Bins_init_invariant:
  assumes two: "2 \<le> length chunks"
      and ne: "\<forall>c \<in> set chunks. c \<noteq> []"
      and sorted: "sorted (concat chunks)"
  shows "\<exists>b. Bins_init chunks = Inr b \<and>
             n_bins b = int (length chunks) \<and>
             length (upper_bounds b) = length chunks \<and>
             length (lower_bounds b) = length chunks \<and>
             length (reprs b) = length chunks \<and>
             sorted_wrt (\<lambda>lo hi. fge hi lo) (lower_bounds b) \<and>
             sorted_wrt (\<lambda>lo hi. fge hi lo) (upper_bounds b) \<and>
             lower_bounds b ! 0 = NInf \<and>
             upper_bounds b ! (length chunks - 1) = PInf"
proof -
  let ?b = "\<lparr> n_bins = int (length chunks),
               upper_bounds = map (\<lambda>c. Fin (hd c)) (tl chunks) @ [PInf],
               lower_bounds = NInf # map (\<lambda>c. Fin (hd c)) (tl chunks),
               reprs = labels_of chunks \<rparr>"
  have tl_ne: "\<forall>c \<in> set (tl chunks). c \<noteq> []"
    using ne by (cases chunks) simp_all
  have init: "Bins_init chunks = Inr ?b"
    by (rule Bins_init_closed [OF two tl_ne])
  have "sorted_wrt (\<le>) (map hd chunks)"
    using sorted_wrt_heads [OF _ ne, of "(\<le>)"] sorted by simp
  then have "sorted_wrt (\<le>) (map hd (tl chunks))"
    by (cases chunks) simp_all
  note srt = bounds_sorted [OF this]
  have len: "length (tl chunks) = length chunks - 1" by simp
  have "upper_bounds ?b ! (length chunks - 1) = PInf"
    by (simp add: nth_append)
  moreover have "length (upper_bounds ?b) = length chunks" "length (lower_bounds ?b) = length chunks"
    using two by simp_all
  moreover have "length (reprs ?b) = length chunks"
    using Bins_init_lengths(4) [OF init] .
  ultimately show ?thesis
    using init srt by (intro exI [of _ ?b]) simp
qed

lemma lower_nth:
  "1 \<le> k \<Longrightarrow> k < length chunks \<Longrightarrow> (NInf # map (\<lambda>c. Fin (hd c)) (tl chunks)) ! k = Fin (hd (chunks ! k))"
  by (cases k) (simp_all add: nth_tl)

lemma upper_nth:
  "1 \<le> k \<Longrightarrow> k < length chunks \<Longrightarrow>
   (map (\<lambda>c. Fin (hd c)) (tl chunks) @ [PInf]) ! (k - 1) = Fin (hd (chunks ! k))"
  by (cases k) (auto simp: nth_tl nth_append)

lemma labels_nth:
  assumes "1 \<le> k" and "k < length chunks"
  shows "labels_of chunks ! (k - 1) =
         (if k = 1 then ''(-Inf, '' else ''('' @ fmt2 (hd (chunks ! (k - 1))) @ '', '')
         @ fmt2 (hd (chunks ! k)) @ '']''"
proof (cases "k = 1")
  case True
  then show ?thesis by (simp add: labels_of_def)
next
  case False
  with assms obtain j where j: "k = Suc (Suc j)" by (cases k; cases "k - 1") auto
  have len: "j < length (zip (tl chunks) (tl (tl chunks)))" using assms(2) j by simp
  have "labels_of chunks ! (k - 1) =
        map (\<lambda>z. ''('' @ fmt2 (hd (fst z)) @ '', '' @ fmt2 (hd (snd z)) @ '']'')
          (zip (tl chunks) (tl (tl chunks))) ! j"
    using len j by (simp add: labels_of_def nth_append del: length_zip)
  also have "\<dots> = ''('' @ fmt2 (hd (chunks ! (k - 1))) @ '', '' @ fmt2 (hd (chunks ! k)) @ '']''"
    using len j assms(2) by (simp add: nth_tl)
  finally show ?thesis using False by simp
qed

lemma init_loop_next_nonempty:
  "init_loop i zs acc = Inr r \<Longrightarrow> \<forall>z \<in> set zs. snd z \<noteq> []"
proof (induction i zs acc rule: init_loop.induct)
  case (1 i acc)
  then show ?case by simp
next
  case (2 i this_chunk next_chunk rest ubs lbs rs)
  from "2.prems" obtain u where u: "first next_chunk = Inr u"
    by (auto split: sum.splits)
  then have ne: "next_chunk \<noteq> []" by (cases next_chunk) simp_all
  show ?case
  proof (cases "i = 0")
    case True
    with "2.prems" u "2.IH"(1) [OF u True] ne show ?thesis by simp
  next
    case False
    with "2.prems" u obtain l where l: "first this_chunk = Inr l"
      by (auto split: sum.splits)
    with "2.prems" u False "2.IH"(2) [OF u False l] ne show ?thesis by simp
  qed
qed

lemma Bins_init_tail_nonempty:
  assumes "Bins_init chunks = Inr b"
  shows "\<forall>c \<in> set (tl chunks). c \<noteq> []"
proof -
  from assms obtain ubs lbs rs where
    loop: "init_loop 0 (zip (butlast chunks) (tl chunks)) ([], [], []) = Inr (ubs, lbs, rs)"
    by (rule Bins_init_Inr)
  have "map snd (zip (butlast chunks) (tl chunks)) = tl chunks"
    by (simp add: map_snd_zip_take)
  then have "set (tl chunks) = snd ` set (zip (butlast chunks) (tl chunks))"
    by (metis set_map)
  with init_loop_next_nonempty [OF loop] show ?thesis by auto
qed

text \<open>
  C10, amended: for every \<^verbatim>\<open>_Bins\<close> object whose cut points, the first values of the
  chunks after the first, are strictly ascending (as they are for chunks of the distinct
  values that \<^verbatim>\<open>np.unique\<close> yields), and every interior cut point, the first value of
  chunk i for \<open>i >= 1\<close>: the cut point is lower bound i and upper bound i - 1, a value
  equal to lower bound i is assigned bin i, not i - 1, and the label of bin i - 1 ends
  with the cut point and a closing bracket.
\<close>

theorem cut_point_assigned_to_upper_bin:
  assumes init: "Bins_init chunks = Inr b"
      and strict: "sorted_wrt (<) (map hd (tl chunks))"
      and i: "1 \<le> i" "i < length chunks"
  shows "lower_bounds b ! i = Fin (hd (chunks ! i)) \<and>
         upper_bounds b ! (i - 1) = Fin (hd (chunks ! i)) \<and>
         assign b [lower_bounds b ! i] False = Inr (Levels [int i]) \<and>
         reprs b ! (i - 1) =
           (if i = 1 then ''(-Inf, '' else ''('' @ fmt2 (hd (chunks ! (i - 1))) @ '', '')
           @ fmt2 (hd (chunks ! i)) @ '']''"
proof -
  let ?lbs = "NInf # map (\<lambda>c. Fin (hd c)) (tl chunks)"
  let ?b = "\<lparr> n_bins = int (length chunks),
               upper_bounds = map (\<lambda>c. Fin (hd c)) (tl chunks) @ [PInf],
               lower_bounds = ?lbs,
               reprs = labels_of chunks \<rparr>"
  let ?x = "Fin (hd (chunks ! i))"
  have two: "2 \<le> length chunks" using i by simp
  have tl_ne: "\<forall>c \<in> set (tl chunks). c \<noteq> []"
    by (rule Bins_init_tail_nonempty [OF init])
  have b: "b = ?b"
    using Bins_init_closed [OF two tl_ne] init by simp
  have "sorted_wrt (\<le>) (map hd (tl chunks))"
    using strict by (rule sorted_wrt_mono_rel [rotated]) simp
  then have srt: "sorted_wrt (\<lambda>lo hi. fge hi lo) ?lbs"
    by (rule bounds_sorted)
  have len: "length ?lbs = length chunks" using two by simp
  from largest_index [OF srt _ _, of ?x] obtain m where m:
    "int m = int (length ?lbs) - 1 - int (misses ?lbs ?x)" "m < length ?lbs"
    "fge ?x (?lbs ! m)" "\<forall>k<length ?lbs. fge ?x (?lbs ! k) \<longrightarrow> k \<le> m"
    by auto
  have "fge ?x (?lbs ! i)" using lower_nth [OF i] by simp
  with m(4) i(2) len have le: "i \<le> m" by simp
  have "m \<le> i"
  proof (rule ccontr)
    assume "\<not> m \<le> i"
    then have lt: "i < m" by simp
    have "map hd (tl chunks) ! (i - 1) < map hd (tl chunks) ! (m - 1)"
      using strict lt i(1) m(2) len by (simp add: sorted_wrt_iff_nth_less)
    then have "hd (chunks ! i) < hd (chunks ! m)"
      using lt i m(2) len by (simp add: nth_tl)
    moreover have "?lbs ! m = Fin (hd (chunks ! m))"
      using lower_nth [of m chunks] lt m(2) len by simp
    ultimately show False using m(3) by simp
  qed
  with le have "m = i" by simp
  with m(1) len have "int (length chunks) - 1 - int (misses ?lbs ?x) = int i" by simp
  then have "assign ?b [?x] False = Inr (Levels [int i])"
    by (simp add: assign_levels)
  then show ?thesis
    unfolding b using lower_nth [OF i] upper_nth [OF i] labels_nth [OF i]
    by simp
qed

lemmas fmt2_eval = fmt2_def round_half_even_def show_nat.simps digit_char_def

lemma Bins_init_example: "Bins_init example_chunks = Inr example_bins"
  by (simp add: example_chunks_def example_bins_def Bins_init_def fmt2_eval)

theorem Bins_init_invariant_witness:
  "2 \<le> length example_chunks \<and> [] \<notin> set example_chunks \<and> sorted (concat example_chunks) \<and>
   Bins_init example_chunks = Inr example_bins \<and>
   n_bins example_bins = int (length example_chunks) \<and>
   length (upper_bounds example_bins) = length example_chunks \<and>
   length (lower_bounds example_bins) = length example_chunks \<and>
   length (reprs example_bins) = length example_chunks \<and>
   sorted_wrt (\<lambda>lo hi. fge hi lo) (lower_bounds example_bins) \<and>
   sorted_wrt (\<lambda>lo hi. fge hi lo) (upper_bounds example_bins) \<and>
   lower_bounds example_bins ! 0 = NInf \<and>
   upper_bounds example_bins ! (length example_chunks - 1) = PInf"
proof -
  have h1: "2 \<le> length example_chunks" by (simp add: example_chunks_def)
  have h2: "\<forall>c \<in> set example_chunks. c \<noteq> []" by (simp add: example_chunks_def)
  have h3: "sorted (concat example_chunks)" by (simp add: example_chunks_def)
  from Bins_init_invariant [OF h1 h2 h3] Bins_init_example h1 h2 h3 show ?thesis
    by auto
qed

text \<open>
  C8 as stated fails for a single chunk: the only lower bound is then the first value of
  that chunk, not -inf.
\<close>

theorem single_chunk_counterexample:
  "[] \<notin> set [[1 :: real]] \<and> sorted (concat [[1 :: real]]) \<and>
   Bins_init [[1]] = Inr single_chunk_bins \<and>
   lower_bounds single_chunk_bins ! 0 = Fin 1 \<and>
   lower_bounds single_chunk_bins ! 0 \<noteq> NInf"
  by (simp add: single_chunk_bins_def Bins_init_def fmt2_eval)

theorem cut_point_assigned_to_upper_bin_witness:
  "Bins_init example_chunks = Inr example_bins \<and>
   sorted_wrt (<) (map hd (tl example_chunks)) \<and>
   (1 :: nat) \<le> 2 \<and> 2 < length example_chunks \<and>
   lower_bounds example_bins ! 2 = Fin 6 \<and>
   upper_bounds example_bins ! 1 = Fin 6 \<and>
   assign example_bins [Fin 6] False = Inr (Levels [2]) \<and>
   reprs example_bins ! 1 = ''(3.00, 6.00]''"
proof -
  have h2: "sorted_wrt (<) (map hd (tl example_chunks))" by (simp add: example_chunks_def)
  have h3: "(1 :: nat) \<le> 2" by simp
  have h4: "2 < length example_chunks" by (simp add: example_chunks_def)
  have hd2: "hd (example_chunks ! 2) = 6" "hd (example_chunks ! Suc 0) = 3"
    by (simp_all add: example_chunks_def)
  from cut_point_assigned_to_upper_bin [OF Bins_init_example h2 h3 h4]
  have "lower_bounds example_bins ! 2 = Fin 6 \<and>
     upper_bounds example_bins ! 1 = Fin 6 \<and>
     assign example_bins [Fin 6] False = Inr (Levels [2]) \<and>
     reprs example_bins ! 1 = ''('' @ fmt2 3 @ '', '' @ fmt2 6 @ '']''"
    by (auto simp: hd2)
  then show ?thesis using h2 h4 Bins_init_example
    by (auto simp: fmt2_eval)
qed

text \<open>
  C10 as stated fails for chunks that start with the same value: from the chunks [1], [2],
  [2] the constructor builds the lower bounds -inf, 2, 2, and the value 2, equal to lower
  bound 1, is assigned bin 2.
\<close>

theorem tied_cut_points_counterexample:
  "[] \<notin> set [[1], [2], [2 :: real]] \<and> sorted (concat [[1], [2], [2 :: real]]) \<and>
   Bins_init [[1], [2], [2]] = Inr tied_bins \<and>
   lower_bounds tied_bins ! 1 = Fin 2 \<and>
   assign tied_bins [Fin 2] False = Inr (Levels [2]) \<and>
   assign tied_bins [Fin 2] False \<noteq> Inr (Levels [1])"
proof -
  have "Bins_init [[1], [2], [2]] = Inr tied_bins"
    by (simp add: tied_bins_def Bins_init_def fmt2_eval)
  moreover have "assign tied_bins [Fin 2] False = Inr (Levels [2])"
    by (simp add: tied_bins_def assign_def assign_step_def decrement_where_def)
  ultimately show ?thesis
    by (simp add: tied_bins_def)
qed

lemma upt_4: "[0..<4] = [0, 1, 2, 3]"
  by code_simp

lemma unique_example: "np_unique example_sample = (example_sample, [1, 1, 1, 1, 1, 1, 1, 1, 1, 1])"
  by (simp add: np_unique_def example_sample_def)

lemma chunk_example: "chunk example_sample 4 = example_chunks"
  by (simp add: chunk_def example_sample_def example_chunks_def upt_4)

lemma uniform_example: "uniform example_sample 4 = Inr example_bins"
  by (simp add: uniform_def validate_n_bins_def unique_example chunk_example Bins_init_example)
     (simp add: example_sample_def)

text \<open>
  C3, amended: the uniform strategy with 4 bins on the sample 0, 1, ..., 9 cuts the distinct
  values into the chunks [0,1,2], [3,4,5], [6,7], [8,9], and the labels are
  "(-Inf, 3.00]", "(3.00, 6.00]", "(6.00, 8.00]" and "(8.00, Inf]".
\<close>

theorem uniform_example_labels:
  "chunk (fst (np_unique example_sample)) 4 = [[0, 1, 2], [3, 4, 5], [6, 7], [8, 9]] \<and>
   uniform example_sample 4 = Inr example_bins \<and>
   reprs example_bins = [''(-Inf, 3.00]'', ''(3.00, 6.00]'', ''(6.00, 8.00]'', ''(8.00, Inf]'']"
  using uniform_example chunk_example
  by (simp add: unique_example example_bins_def example_chunks_def)

text \<open>
  C3 as stated fails: from the very chunks it names, the constructor gives bin 1 the label
  "(3.00, 6.00]", not "(0.00, 6.00]".
\<close>

theorem uniform_example_bin1_counterexample:
  "Bins_init [[0, 1, 2], [3, 4, 5], [6, 7], [8, 9]] = Inr example_bins \<and>
   reprs example_bins ! 0 = ''(-Inf, 3.00]'' \<and>
   reprs example_bins ! 1 = ''(3.00, 6.00]'' \<and>
   reprs example_bins ! 1 \<noteq> ''(0.00, 6.00]''"
  using Bins_init_example
  by (simp add: example_bins_def example_chunks_def)

section \<open>The transformer: fit and transform\<close>

lemma fit_compute_attrs:
  "fit_compute ebb (self\<lparr> bt_bins := b0, bt_fit_cols := f0 \<rparr>) X = fit_compute ebb self X"
  by (simp add: fit_compute_def cong: sum.case_cong prod.case_cong option.case_cong)

text \<open>
  C5: fit is atomic with respect to the fitted state. If fit raises, whatever the error, the
  transformer after the call is the transformer before it, so \<^verbatim>\<open>bins_\<close> and
  \<^verbatim>\<open>fit_cols_\<close> are what they were. If fit succeeds, both attributes are replaced by
  the bins and columns computed in this call, and nothing of their earlier values
  remains: the same call on the transformer with any other earlier values of the two
  attributes ends in the same transformer.
\<close>

theorem fit_atomic:
  "(fit ebb self X = (Inl e, self') \<longrightarrow> self' = self) \<and>
   (fit ebb self X = (Inr u, self') \<longrightarrow>
      (\<exists>bins cs. fit_compute ebb self X = Inr (bins, cs) \<and>
         self' = self\<lparr> bt_bins := Some bins, bt_fit_cols := Some cs \<rparr>) \<and>
      fit ebb (self\<lparr> bt_bins := b0, bt_fit_cols := f0 \<rparr>) X = (Inr u, self'))"
  by (auto simp: fit_def fit_compute_attrs split: sum.splits prod.splits)

text \<open>
  C7: transform on a transformer that fit has never set \<^verbatim>\<open>bins_\<close> on fails with
  NotFittedError, and transform on a table that lacks a column the transformer was fit on
  fails with MissingColumnError; no table is returned in either case.
\<close>

theorem transform_errors:
  "(bt_bins self = None \<longrightarrow> transform self X = Inl NotFittedError) \<and>
   (bt_bins self = Some bins \<and> bt_fit_cols self = Some cs \<and> c \<in> set cs \<and> c \<notin> fst ` set X \<longrightarrow>
      transform self X = Inl MissingColumnError)"
  by (auto simp: transform_def check_dataframe_def validate_test_set_columns_def list_all_iff)

lemma upt_2: "[0..<2] = [0, 1]"
  by code_simp

lemma uniform_123: "uniform [1, 2, 3] 2 = Inr two_bins"
  by (simp add: uniform_def validate_n_bins_def np_unique_def chunk_def upt_2 Bins_init_def
      two_bins_def fmt2_eval)

lemma uniform_111: "uniform [1, 1, 1] 2 = Inl (ValueError ''Fewer unique values than bins!'')"
  by (simp add: uniform_def validate_n_bins_def np_unique_def)

lemma fit_example: "fit no_kernel example_engine example_frame = (Inr (), fitted_engine)"
  by (simp add: fit_def fit_compute_def check_dataframe_def normalize_n_bins_def dict_of_def
      STRATEGIES_def column_def is_finite_cell_def uniform_123 example_engine_def
      example_frame_def fitted_engine_def)

lemma fit_constant:
  "fit no_kernel fitted_engine constant_frame =
   (Inl (ValueError ''Fewer unique values than bins!''), fitted_engine)"
  by (simp add: fit_def fit_compute_def check_dataframe_def normalize_n_bins_def dict_of_def
      STRATEGIES_def column_def is_finite_cell_def uniform_111 example_engine_def
      constant_frame_def fitted_engine_def)

theorem fit_atomic_witness:
  "fit no_kernel fitted_engine constant_frame =
     (Inl (ValueError ''Fewer unique values than bins!''), fitted_engine) \<and>
   bt_bins fitted_engine = Some [(''x'', two_bins)] \<and>
   fit no_kernel example_engine example_frame = (Inr (), fitted_engine) \<and>
   fit no_kernel (example_engine\<lparr> bt_bins := Some [], bt_fit_cols := Some [''q''] \<rparr>) example_frame =
     (Inr (), fitted_engine)"
  using fit_atomic [where ebb = no_kernel and self = example_engine and X = example_frame
      and u = "()" and self' = fitted_engine and ?b0.0 = "Some []" and ?f0.0 = "Some [''q'']"]
    fit_example fit_constant
  by (simp add: fitted_engine_def)

theorem transform_errors_witness:
  "bt_bins example_engine = None \<and> transform example_engine example_frame = Inl NotFittedError \<and>
   bt_bins fitted_engine = Some [(''x'', two_bins)] \<and> bt_fit_cols fitted_engine = Some [''x''] \<and>
   ''x'' \<in> set [''x''] \<and> ''x'' \<notin> fst ` set [(''y'', [Num (Fin 5)])] \<and>
   transform fitted_engine [(''y'', [Num (Fin 5)])] = Inl MissingColumnError"
  using transform_errors [where self = example_engine and X = example_frame]
    transform_errors [where self = fitted_engine and bins = "[(''x'', two_bins)]" and cs = "[''x'']"
      and c = "''x''" and X = "[(''y'', [Num (Fin 5)])]"]
  by (simp add: fitted_engine_def example_engine_def)

section \<open>Cardinality of a column\<close>





























lemma uniform_12: "\<exists>b. uniform [1, 2] 2 = Inr b \<and> n_bins b = 2"
  by (simp add: uniform_def validate_n_bins_def np_unique_def chunk_def upt_2 Bins_init_def)

lemma entropy_12: "entropy no_kernel [1, 2] 2 = Inl IndexError"
  by (simp add: entropy_def validate_n_bins_def np_unique_def no_kernel_def Bins_init_def)



section \<open>The table that transform returns\<close>

lemma scan_map:
  "foldl (assign_step v) (replicate (length v) c) (rev bs) = map (\<lambda>x. c - int (misses bs x)) v"
  by (rule nth_equalityI)
     (simp_all add: foldl_assign_step_length foldl_assign_step_nth misses_rev)

lemma sequence_results_Inr:
  "sequence_results rs = Inr ys \<Longrightarrow>
   length ys = length rs \<and> (\<forall>j<length rs. rs ! j = Inr (ys ! j))"
proof (induction rs arbitrary: ys)
  case Nil
  then show ?case by simp
next
  case (Cons r rs)
  from Cons.prems obtain y ys' where "r = Inr y" "sequence_results rs = Inr ys'" "ys = y # ys'"
    by (auto split: sum.splits)
  with Cons.IH [of ys'] show ?case by (auto simp: nth_Cons split: nat.splits)
qed

lemma assign_length:
  assumes "assign b v s = Inr a"
  shows "length (cells_of a) = length v"
proof (cases s)
  case True
  with assms obtain ls where
    "sequence_results (map (py_index (reprs b)) (map (\<lambda>x. n_bins b - 1 - int (misses (lower_bounds b) x)) v)) = Inr ls"
    "a = Labels ls"
    by (auto simp: assign_def scan_map split: sum.splits)
  with sequence_results_Inr [OF this(1)] show ?thesis by (simp add: cells_of_def)
next
  case False
  with assms show ?thesis by (auto simp: assign_levels cells_of_def)
qed

lemma assign_pointwise:
  assumes "assign b v s = Inr a" and "j < length v"
  shows "\<exists>aj. assign b [v ! j] s = Inr aj \<and> cells_of aj = [cells_of a ! j]"
proof (cases s)
  case True
  let ?f = "\<lambda>x. n_bins b - 1 - int (misses (lower_bounds b) x)"
  from True assms(1) obtain ls where ls:
    "sequence_results (map (py_index (reprs b)) (map ?f v)) = Inr ls" "a = Labels ls"
    by (auto simp: assign_def scan_map split: sum.splits)
  from sequence_results_Inr [OF ls(1)] assms(2)
  have "py_index (reprs b) (?f (v ! j)) = Inr (ls ! j)" "j < length ls" by auto
  then have "assign b [v ! j] True = Inr (Labels [ls ! j])"
    using scan_map [of "[v ! j]" "n_bins b - 1" "lower_bounds b"]
    by (simp add: assign_def)
  with True ls(2) \<open>j < length ls\<close> show ?thesis by (simp add: cells_of_def)
next
  case False
  with assms show ?thesis by (auto simp: assign_levels cells_of_def)
qed

lemma numeric_values_length: "numeric_values cells = Inr v \<Longrightarrow> length v = length cells"
proof (induction cells arbitrary: v)
  case Nil
  then show ?case by simp
next
  case (Cons c cells)
  then show ?case by (cases c) (auto split: sum.splits)
qed

lemma map_of_set_column: "map_of (set_column X k col) = (map_of X)(k \<mapsto> col)"
  by (simp add: set_column_def update_conv')

lemma nrows_set_column:
  "X \<noteq> [] \<Longrightarrow> length col = nrows X \<Longrightarrow> nrows (set_column X k col) = nrows X"
  by (cases X) (auto simp: nrows_def set_column_def)

lemma well_formed_set_column:
  assumes "well_formed X" and "X \<noteq> []" and "length col = nrows X"
  shows "well_formed (set_column X k col)"
proof -
  have n: "nrows (set_column X k col) = nrows X" by (rule nrows_set_column [OF assms(2,3)])
  have "distinct (map fst (AList.update k col X))" using assms(1) by (simp add: well_formed_def distinct_update)
  moreover have "\<forall>p \<in> set (AList.update k col X). length (snd p) = nrows X"
  proof
    fix p assume "p \<in> set (AList.update k col X)"
    then have "p \<in> set X \<or> p = (k, col)"
      by (induction X) (auto split: if_splits)
    then show "length (snd p) = nrows X"
      using assms(1,3) by (auto simp: well_formed_def list_all_iff)
  qed
  ultimately show ?thesis using n by (auto simp: well_formed_def list_all_iff set_column_def)
qed

lemma well_formed_column:
  "well_formed X \<Longrightarrow> map_of X c = Some cells \<Longrightarrow> X \<noteq> [] \<and> length cells = nrows X"
  by (auto simp: well_formed_def list_all_iff dest!: map_of_SomeD)

lemma transform_loop_rows:
  "transform_loop self bins rest Xc = Inr Y \<Longrightarrow> well_formed Xc \<Longrightarrow>
   well_formed Y \<and> nrows Y = nrows Xc"
proof (induction rest arbitrary: Xc)
  case Nil
  then show ?case by simp
next
  case (Cons col rest)
  from Cons.prems(1) obtain bin cells v a where step:
    "map_of bins col = Some bin" "map_of Xc col = Some cells" "numeric_values cells = Inr v"
    "assign bin v (return_bin_label self) = Inr a"
    "transform_loop self bins rest
       (set_column Xc (if overwrite self then col else col @ ''_binned'') (cells_of a)) = Inr Y"
    by (auto simp: column_def split: option.splits sum.splits if_splits)
  let ?X = "set_column Xc (if overwrite self then col else col @ ''_binned'') (cells_of a)"
  from well_formed_column [OF Cons.prems(2) step(2)] numeric_values_length [OF step(3)]
    assign_length [OF step(4)]
  have ne: "Xc \<noteq> []" and len: "length (cells_of a) = nrows Xc" by simp_all
  have "well_formed ?X" "nrows ?X = nrows Xc"
    using well_formed_set_column [OF Cons.prems(2) ne len] nrows_set_column [OF ne len] by simp_all
  with Cons.IH [OF step(5)] show ?case by simp
qed

lemma transform_loop_append:
  assumes "transform_loop self bins rest Xc = Inr Y"
      and "\<not> overwrite self"
      and "\<forall>c \<in> set rest. c @ ''_binned'' \<notin> S"
      and "set rest \<subseteq> S"
  shows "(\<forall>name. name \<notin> (\<lambda>c. c @ ''_binned'') ` set rest \<longrightarrow> map_of Y name = map_of Xc name) \<and>
         (\<forall>c \<in> set rest. \<exists>bin cells v a.
            map_of bins c = Some bin \<and> map_of Xc c = Some cells \<and> numeric_values cells = Inr v \<and>
            assign bin v (return_bin_label self) = Inr a \<and>
            map_of Y (c @ ''_binned'') = Some (cells_of a))"
  using assms(1,3,4)
proof (induction rest arbitrary: Xc)
  case Nil
  then show ?case by simp
next
  case (Cons col rest)
  let ?X = "\<lambda>a. set_column Xc (col @ ''_binned'') (cells_of a)"
  from Cons.prems(1) assms(2) obtain bin cells v a where step:
    "map_of bins col = Some bin" "map_of Xc col = Some cells" "numeric_values cells = Inr v"
    "assign bin v (return_bin_label self) = Inr a"
    "transform_loop self bins rest (?X a) = Inr Y"
    by (auto simp: column_def split: option.splits sum.splits)
  have rest: "\<forall>c \<in> set rest. c @ ''_binned'' \<notin> S" "set rest \<subseteq> S"
    using Cons.prems(2,3) by simp_all
  note IH = Cons.IH [OF step(5) rest]
  have untouched: "map_of (?X a) c = map_of Xc c" if "c \<in> S" for c
  proof -
    have "col @ ''_binned'' \<notin> S" using Cons.prems(2) by simp
    with that have "c \<noteq> col @ ''_binned''" by blast
    then show ?thesis by (simp add: map_of_set_column)
  qed
  have frame: "\<forall>name. name \<notin> (\<lambda>c. c @ ''_binned'') ` set (col # rest) \<longrightarrow>
      map_of Y name = map_of Xc name"
  proof (intro allI impI)
    fix name assume n: "name \<notin> (\<lambda>c. c @ ''_binned'') ` set (col # rest)"
    then have "name \<notin> (\<lambda>c. c @ ''_binned'') ` set rest" "name \<noteq> col @ ''_binned''" by auto
    with IH show "map_of Y name = map_of Xc name" by (simp add: map_of_set_column)
  qed
  have binned: "\<exists>bin cells v a.
      map_of bins c = Some bin \<and> map_of Xc c = Some cells \<and> numeric_values cells = Inr v \<and>
      assign bin v (return_bin_label self) = Inr a \<and>
      map_of Y (c @ ''_binned'') = Some (cells_of a)" if c: "c \<in> set (col # rest)" for c
  proof (cases "c \<in> set rest")
    case True
    with IH obtain bin' cells' v' a' where
      "map_of bins c = Some bin'" "map_of (?X a) c = Some cells'" "numeric_values cells' = Inr v'"
      "assign bin' v' (return_bin_label self) = Inr a'"
      "map_of Y (c @ ''_binned'') = Some (cells_of a')"
      by blast
    moreover have "map_of (?X a) c = map_of Xc c"
      using True rest(2) by (intro untouched) blast
    ultimately show ?thesis by auto
  next
    case False
    with c have eq: "c = col" by simp
    have "col @ ''_binned'' \<notin> (\<lambda>c. c @ ''_binned'') ` set rest"
      using False eq by auto
    with IH have "map_of Y (col @ ''_binned'') = map_of (?X a) (col @ ''_binned'')" by blast
    then have "map_of Y (col @ ''_binned'') = Some (cells_of a)" by (simp add: map_of_set_column)
    with step eq show ?thesis by auto
  qed
  from frame binned show ?case by blast
qed

lemma transform_loop_overwrite:
  assumes "transform_loop self bins rest Xc = Inr Y"
      and "overwrite self"
      and "distinct rest"
  shows "(\<forall>name. name \<notin> set rest \<longrightarrow> map_of Y name = map_of Xc name) \<and>
         (\<forall>c \<in> set rest. \<exists>bin cells v a.
            map_of bins c = Some bin \<and> map_of Xc c = Some cells \<and> numeric_values cells = Inr v \<and>
            assign bin v (return_bin_label self) = Inr a \<and>
            map_of Y c = Some (cells_of a))"
  using assms(1,3)
proof (induction rest arbitrary: Xc)
  case Nil
  then show ?case by simp
next
  case (Cons col rest)
  let ?X = "\<lambda>a. set_column Xc col (cells_of a)"
  from Cons.prems(1) assms(2) obtain bin cells v a where step:
    "map_of bins col = Some bin" "map_of Xc col = Some cells" "numeric_values cells = Inr v"
    "assign bin v (return_bin_label self) = Inr a"
    "transform_loop self bins rest (?X a) = Inr Y"
    by (auto simp: column_def split: option.splits sum.splits)
  have d: "col \<notin> set rest" "distinct rest" using Cons.prems(2) by simp_all
  note IH = Cons.IH [OF step(5) d(2)]
  have frame: "\<forall>name. name \<notin> set (col # rest) \<longrightarrow> map_of Y name = map_of Xc name"
    using IH by (simp add: map_of_set_column)
  have "map_of Y col = Some (cells_of a)"
    using IH d(1) by (simp add: map_of_set_column)
  with step have head: "\<exists>bin cells v a.
      map_of bins col = Some bin \<and> map_of Xc col = Some cells \<and> numeric_values cells = Inr v \<and>
      assign bin v (return_bin_label self) = Inr a \<and> map_of Y col = Some (cells_of a)"
    by blast
  have tail: "\<exists>bin cells v a.
      map_of bins c = Some bin \<and> map_of Xc c = Some cells \<and> numeric_values cells = Inr v \<and>
      assign bin v (return_bin_label self) = Inr a \<and> map_of Y c = Some (cells_of a)"
    if c: "c \<in> set rest" for c
  proof -
    from c d(1) have "c \<noteq> col" by blast
    then have "map_of (?X a) c = map_of Xc c" by (simp add: map_of_set_column)
    with IH c show ?thesis by metis
  qed
  from frame head tail show ?case by auto
qed

text \<open>
  What transform returns when no name clashes. For every fitted transformer and every
  table (columns of distinct names and equal length) on which transform returns, the table
  it has built has as many rows as its input, and so has the array returned when
  \<^verbatim>\<open>as_df\<close> is False. When \<^verbatim>\<open>overwrite\<close> is False and no fit column bears the name of a
  fit column followed by "_binned", every column but the derived ones keeps its cells, the
  fit columns among them, and the column named c followed by "_binned" holds what
  \<^verbatim>\<open>assign\<close> returns for the cells of the fit column c: one bin per row, the bin in
  row j being the bin of the value in row j. When \<^verbatim>\<open>overwrite\<close> is True and the fit
  columns are distinct, every other column keeps its cells and each fit column holds the
  bins of its own cells, row by row.
\<close>

theorem transform_rows_and_columns:
  assumes fitted: "bt_bins self = Some bins" "bt_fit_cols self = Some cs"
      and wf: "well_formed X"
      and ok: "transform self X = Inr out"
  shows "\<exists>Y. out = (if as_df self then DataFrame Y else NDArray (frame_values Y)) \<and>
             well_formed Y \<and> nrows Y = nrows X \<and> length (frame_values Y) = nrows X \<and>
             (\<not> overwrite self \<and> (\<forall>c \<in> set cs. c @ ''_binned'' \<notin> set cs) \<longrightarrow>
                (\<forall>name. name \<notin> (\<lambda>c. c @ ''_binned'') ` set cs \<longrightarrow> map_of Y name = map_of X name) \<and>
                (\<forall>c \<in> set cs.
                   map_of Y c = map_of X c \<and>
                   (\<exists>bin cells v a.
                      map_of bins c = Some bin \<and> map_of X c = Some cells \<and>
                      numeric_values cells = Inr v \<and>
                      assign bin v (return_bin_label self) = Inr a \<and>
                      map_of Y (c @ ''_binned'') = Some (cells_of a) \<and>
                      length (cells_of a) = nrows X \<and>
                      (\<forall>j<nrows X. \<exists>aj. assign bin [v ! j] (return_bin_label self) = Inr aj \<and>
                                         cells_of aj = [cells_of a ! j])))) \<and>
             (overwrite self \<and> distinct cs \<longrightarrow>
                (\<forall>name. name \<notin> set cs \<longrightarrow> map_of Y name = map_of X name) \<and>
                (\<forall>c \<in> set cs.
                   (\<exists>bin cells v a.
                      map_of bins c = Some bin \<and> map_of X c = Some cells \<and>
                      numeric_values cells = Inr v \<and>
                      assign bin v (return_bin_label self) = Inr a \<and>
                      map_of Y c = Some (cells_of a) \<and>
                      length (cells_of a) = nrows X \<and>
                      (\<forall>j<nrows X. \<exists>aj. assign bin [v ! j] (return_bin_label self) = Inr aj \<and>
                                         cells_of aj = [cells_of a ! j]))))"
proof -
  from ok fitted obtain Y where Y: "transform_loop self bins cs X = Inr Y"
    "out = (if as_df self then DataFrame Y else NDArray (frame_values Y))"
    by (auto simp: transform_def check_dataframe_def split: sum.splits if_splits)
  from transform_loop_rows [OF Y(1) wf] have rows: "well_formed Y" "nrows Y = nrows X" by simp_all
  have vals: "length (frame_values Y) = nrows X" using rows(2) by (simp add: frame_values_def)
  have rowwise: "length (cells_of a) = nrows X \<and>
      (\<forall>j<nrows X. \<exists>aj. assign bin [v ! j] (return_bin_label self) = Inr aj \<and>
                         cells_of aj = [cells_of a ! j])"
    if "map_of X c = Some cells" "numeric_values cells = Inr v"
      "assign bin v (return_bin_label self) = Inr a" for c cells v bin a
  proof -
    from well_formed_column [OF wf that(1)] numeric_values_length [OF that(2)]
    have lv: "length v = nrows X" by simp
    with assign_length [OF that(3)] assign_pointwise [OF that(3)] show ?thesis by simp
  qed
  have appended: "(\<forall>name. name \<notin> (\<lambda>c. c @ ''_binned'') ` set cs \<longrightarrow> map_of Y name = map_of X name) \<and>
      (\<forall>c \<in> set cs.
          map_of Y c = map_of X c \<and>
          (\<exists>bin cells v a.
                      map_of bins c = Some bin \<and> map_of X c = Some cells \<and>
                      numeric_values cells = Inr v \<and>
                      assign bin v (return_bin_label self) = Inr a \<and>
                      map_of Y (c @ ''_binned'') = Some (cells_of a) \<and>
                      length (cells_of a) = nrows X \<and>
                      (\<forall>j<nrows X. \<exists>aj. assign bin [v ! j] (return_bin_label self) = Inr aj \<and>
                                         cells_of aj = [cells_of a ! j])))"
    if nov: "\<not> overwrite self" and free: "\<forall>c \<in> set cs. c @ ''_binned'' \<notin> set cs"
  proof (intro conjI ballI)
    note app = transform_loop_append [OF Y(1) nov free subset_refl]
    from app show "\<forall>name. name \<notin> (\<lambda>c. c @ ''_binned'') ` set cs \<longrightarrow> map_of Y name = map_of X name"
      by blast
    fix c assume c: "c \<in> set cs"
    from free c have "c \<notin> (\<lambda>c. c @ ''_binned'') ` set cs" by auto
    with app show "map_of Y c = map_of X c" by blast
    from app c obtain bin cells v a where b:
      "map_of bins c = Some bin" "map_of X c = Some cells" "numeric_values cells = Inr v"
      "assign bin v (return_bin_label self) = Inr a" "map_of Y (c @ ''_binned'') = Some (cells_of a)"
      by blast
    with rowwise [OF b(2,3,4)] show "(\<exists>bin cells v a.
                      map_of bins c = Some bin \<and> map_of X c = Some cells \<and>
                      numeric_values cells = Inr v \<and>
                      assign bin v (return_bin_label self) = Inr a \<and>
                      map_of Y (c @ ''_binned'') = Some (cells_of a) \<and>
                      length (cells_of a) = nrows X \<and>
                      (\<forall>j<nrows X. \<exists>aj. assign bin [v ! j] (return_bin_label self) = Inr aj \<and>
                                         cells_of aj = [cells_of a ! j]))"
      by blast
  qed
  have overwritten: "(\<forall>name. name \<notin> set cs \<longrightarrow> map_of Y name = map_of X name) \<and>
      (\<forall>c \<in> set cs.
          (\<exists>bin cells v a.
                      map_of bins c = Some bin \<and> map_of X c = Some cells \<and>
                      numeric_values cells = Inr v \<and>
                      assign bin v (return_bin_label self) = Inr a \<and>
                      map_of Y c = Some (cells_of a) \<and>
                      length (cells_of a) = nrows X \<and>
                      (\<forall>j<nrows X. \<exists>aj. assign bin [v ! j] (return_bin_label self) = Inr aj \<and>
                                         cells_of aj = [cells_of a ! j])))"
    if ov: "overwrite self" and dist: "distinct cs"
  proof (intro conjI ballI)
    note app = transform_loop_overwrite [OF Y(1) ov dist]
    from app show "\<forall>name. name \<notin> set cs \<longrightarrow> map_of Y name = map_of X name"
      by blast
    fix c assume c: "c \<in> set cs"
    from app c obtain bin cells v a where b:
      "map_of bins c = Some bin" "map_of X c = Some cells" "numeric_values cells = Inr v"
      "assign bin v (return_bin_label self) = Inr a" "map_of Y c = Some (cells_of a)"
      by blast
    with rowwise [OF b(2,3,4)] show "(\<exists>bin cells v a.
                      map_of bins c = Some bin \<and> map_of X c = Some cells \<and>
                      numeric_values cells = Inr v \<and>
                      assign bin v (return_bin_label self) = Inr a \<and>
                      map_of Y c = Some (cells_of a) \<and>
                      length (cells_of a) = nrows X \<and>
                      (\<forall>j<nrows X. \<exists>aj. assign bin [v ! j] (return_bin_label self) = Inr aj \<and>
                                         cells_of aj = [cells_of a ! j]))"
      by blast
  qed
  from Y(2) rows vals appended overwritten show ?thesis by blast
qed

lemma uniform_547: "uniform [5, 4, 7] 2 = Inr seven_bins"
  by (simp add: uniform_def validate_n_bins_def np_unique_def chunk_def upt_2 Bins_init_def
      seven_bins_def fmt2_eval)

lemmas assign_eval = assign_def assign_step_def decrement_where_def

lemma transform_example: "transform fitted_engine example_frame = Inr (DataFrame binned_frame)"
  by (simp add: transform_def check_dataframe_def validate_test_set_columns_def column_def
      set_column_def cells_of_def assign_eval fitted_engine_def example_engine_def
      example_frame_def binned_frame_def two_bins_def)

lemma fit_collision: "fit no_kernel collision_engine collision_frame = (Inr (), collision_fitted)"
  by (simp add: fit_def fit_compute_def check_dataframe_def normalize_n_bins_def dict_of_def
      STRATEGIES_def column_def is_finite_cell_def uniform_123 uniform_547 example_engine_def
      collision_engine_def collision_frame_def collision_fitted_def)

lemma transform_collision:
  "transform collision_fitted collision_frame = Inr (DataFrame collision_result)"
  by (simp add: transform_def check_dataframe_def validate_test_set_columns_def column_def
      set_column_def cells_of_def assign_eval collision_fitted_def collision_engine_def
      example_engine_def collision_frame_def collision_result_def two_bins_def seven_bins_def)

theorem transform_rows_and_columns_witness:
  "bt_bins fitted_engine = Some [(''x'', two_bins)] \<and> bt_fit_cols fitted_engine = Some [''x''] \<and>
   well_formed example_frame \<and>
   transform fitted_engine example_frame = Inr (DataFrame binned_frame) \<and>
   \<not> overwrite fitted_engine \<and> ''x'' @ ''_binned'' \<notin> set [''x''] \<and>
   well_formed binned_frame \<and> nrows binned_frame = nrows example_frame \<and>
   map_of binned_frame ''x'' = map_of example_frame ''x'' \<and>
   (\<exists>a. assign two_bins [Fin 1, Fin 2, Fin 3] (return_bin_label fitted_engine) = Inr a \<and>
        map_of binned_frame (''x'' @ ''_binned'') = Some (cells_of a))"
proof -
  have h1: "bt_bins fitted_engine = Some [(''x'', two_bins)]"
    and h2: "bt_fit_cols fitted_engine = Some [''x'']"
    and h5: "\<not> overwrite fitted_engine" and h7: "as_df fitted_engine"
    by (simp_all add: fitted_engine_def example_engine_def)
  have h3: "well_formed example_frame"
    by (simp add: well_formed_def example_frame_def nrows_def)
  have h6: "\<forall>c \<in> set [''x'']. c @ ''_binned'' \<notin> set [''x'']"
    by simp
  have x: "map_of example_frame ''x'' = Some [Num (Fin 1), Num (Fin 2), Num (Fin 3)]"
    by (simp add: example_frame_def)
  from transform_rows_and_columns [OF h1 h2 h3 transform_example] h7 h5 h6
  have "well_formed binned_frame \<and> nrows binned_frame = nrows example_frame \<and>
        map_of binned_frame ''x'' = map_of example_frame ''x'' \<and>
        (\<exists>bin cells v a.
           map_of [(''x'', two_bins)] ''x'' = Some bin \<and> map_of example_frame ''x'' = Some cells \<and>
           numeric_values cells = Inr v \<and>
           assign bin v (return_bin_label fitted_engine) = Inr a \<and>
           map_of binned_frame (''x'' @ ''_binned'') = Some (cells_of a))"
    by auto
  then have "well_formed binned_frame \<and> nrows binned_frame = nrows example_frame \<and>
        map_of binned_frame ''x'' = map_of example_frame ''x'' \<and>
        (\<exists>a. assign two_bins [Fin 1, Fin 2, Fin 3] (return_bin_label fitted_engine) = Inr a \<and>
             map_of binned_frame (''x'' @ ''_binned'') = Some (cells_of a))"
    unfolding x by auto
  with h1 h2 h3 h5 transform_example show ?thesis by simp
qed

text \<open>
  C9: with \<^verbatim>\<open>overwrite\<close> False, transform leaves every fit column as it was and puts
  the bins of a fit column c into a new column named c followed by "_binned". The code
  breaks this when a fit column bears the derived name of another: fit on the columns x
  and x_binned, transform writes the bins of x over the fit column x_binned, which loses
  its values, although the parameter asks for the output to be appended and nothing to be
  overwritten.
\<close>

theorem derived_name_collision:
  "fit no_kernel collision_engine collision_frame = (Inr (), collision_fitted) \<and>
   bt_fit_cols collision_fitted = Some [''x'', ''x_binned''] \<and>
   \<not> overwrite collision_fitted \<and>
   transform collision_fitted collision_frame = Inr (DataFrame collision_result) \<and>
   map_of collision_frame ''x_binned'' = Some [Num (Fin 5), Num (Fin 4), Num (Fin 7)] \<and>
   map_of collision_result ''x_binned'' = Some [Num (Fin 0), Num (Fin 0), Num (Fin 1)] \<and>
   map_of collision_result ''x_binned'' \<noteq> map_of collision_frame ''x_binned''"
  using fit_collision transform_collision
  by (simp add: collision_fitted_def collision_engine_def example_engine_def
      collision_frame_def collision_result_def)

text \<open>
  C2: every bin index that \<^verbatim>\<open>assign\<close> returns for a fitted \<^verbatim>\<open>_Bins\<close> object lies in
  \<open>[0, n_bins - 1]\<close> and \<^verbatim>\<open>assign\<close> never raises. The code breaks the first part at
  NaN, which no validation of transform keeps out (fit asks for finite values, transform
  does not): NaN is below every lower bound, -inf included, so the bins fitted on
  0, 1, ..., 9 with 4 bins give it the index -1, the label lookup wraps around to the
  label of the last bin, and transform writes the level -1 into its table.
\<close>

theorem assign_nan_out_of_range:
  "uniform example_sample 4 = Inr example_bins \<and> n_bins example_bins = 4 \<and>
   assign example_bins [NaN] False = Inr (Levels [- 1]) \<and>
   assign example_bins [NaN] True = Inr (Labels [''(8.00, Inf]'']) \<and>
   fit no_kernel example_engine example_frame = (Inr (), fitted_engine) \<and>
   transform fitted_engine [(''x'', [Num NaN])] =
     Inr (DataFrame [(''x'', [Num NaN]), (''x_binned'', [Num (Fin (- 1))])])"
proof -
  have "assign example_bins [NaN] False = Inr (Levels [- 1])"
    by (simp add: assign_eval example_bins_def)
  moreover have "assign example_bins [NaN] True = Inr (Labels [''(8.00, Inf]''])"
    by (simp add: assign_eval example_bins_def py_index_def)
  moreover have "transform fitted_engine [(''x'', [Num NaN])] =
     Inr (DataFrame [(''x'', [Num NaN]), (''x_binned'', [Num (Fin (- 1))])])"
    by (simp add: transform_def check_dataframe_def validate_test_set_columns_def column_def
      set_column_def cells_of_def assign_eval fitted_engine_def example_engine_def two_bins_def)
  ultimately show ?thesis
    using uniform_example fit_example by (simp add: example_bins_def)
qed

end
